theory Spec2Isabelle
  imports Complex_Main
begin

section \<open>JavaScript numbers\<close>

text \<open>
  The elevation of a vertex (\<^verbatim>\<open>g[i].z\<close>) and every option of the filters is a JavaScript
  number. The model keeps the special values the filters start from and can produce
  (\<^verbatim>\<open>Infinity\<close>, \<^verbatim>\<open>-Infinity\<close>, \<^verbatim>\<open>NaN\<close>) with their IEEE 754 rules, and takes the arithmetic
  of finite numbers to be exact: rounding, overflow and the sign of zero are not modelled
  (a zero divisor is read as \<^verbatim>\<open>+0\<close>). Where a property is about the bits of a result, the
  rounding is written out: \<open>applyTerrainClamp_rounded\<close> below.
\<close>

datatype number = Fin real | PInf | NInf | NaN

instantiation number :: "{uminus, plus, minus, times, inverse, ord}"
begin

fun uminus_number :: "number \<Rightarrow> number" where
  "uminus_number (Fin a) = Fin (- a)"
| "uminus_number PInf = NInf"
| "uminus_number NInf = PInf"
| "uminus_number NaN = NaN"

fun plus_number :: "number \<Rightarrow> number \<Rightarrow> number" where
  "plus_number (Fin a) (Fin b) = Fin (a + b)"
| "plus_number NaN _ = NaN"
| "plus_number _ NaN = NaN"
| "plus_number PInf NInf = NaN"
| "plus_number NInf PInf = NaN"
| "plus_number PInf _ = PInf"
| "plus_number _ PInf = PInf"
| "plus_number NInf _ = NInf"
| "plus_number _ NInf = NInf"

definition minus_number :: "number \<Rightarrow> number \<Rightarrow> number" where
  "minus_number a b = a + (- b)"

fun times_number :: "number \<Rightarrow> number \<Rightarrow> number" where
  "times_number (Fin a) (Fin b) = Fin (a * b)"
| "times_number NaN _ = NaN"
| "times_number _ NaN = NaN"
| "times_number PInf (Fin b) = (if b = 0 then NaN else if 0 < b then PInf else NInf)"
| "times_number NInf (Fin b) = (if b = 0 then NaN else if 0 < b then NInf else PInf)"
| "times_number (Fin a) PInf = (if a = 0 then NaN else if 0 < a then PInf else NInf)"
| "times_number (Fin a) NInf = (if a = 0 then NaN else if 0 < a then NInf else PInf)"
| "times_number PInf PInf = PInf"
| "times_number PInf NInf = NInf"
| "times_number NInf PInf = NInf"
| "times_number NInf NInf = PInf"

fun divide_number :: "number \<Rightarrow> number \<Rightarrow> number" where
  "divide_number (Fin a) (Fin b) =
     (if b = 0 then (if a = 0 then NaN else if 0 < a then PInf else NInf) else Fin (a / b))"
| "divide_number NaN _ = NaN"
| "divide_number _ NaN = NaN"
| "divide_number (Fin a) PInf = Fin 0"
| "divide_number (Fin a) NInf = Fin 0"
| "divide_number PInf (Fin b) = (if 0 \<le> b then PInf else NInf)"
| "divide_number NInf (Fin b) = (if 0 \<le> b then NInf else PInf)"
| "divide_number PInf PInf = NaN"
| "divide_number PInf NInf = NaN"
| "divide_number NInf PInf = NaN"
| "divide_number NInf NInf = NaN"

definition inverse_number :: "number \<Rightarrow> number" where
  "inverse_number a = divide (Fin 1) a"

fun less_number :: "number \<Rightarrow> number \<Rightarrow> bool" where
  "less_number (Fin a) (Fin b) = (a < b)"
| "less_number NaN _ = False"
| "less_number _ NaN = False"
| "less_number NInf NInf = False"
| "less_number NInf _ = True"
| "less_number _ NInf = False"
| "less_number PInf _ = False"
| "less_number _ PInf = True"

fun less_eq_number :: "number \<Rightarrow> number \<Rightarrow> bool" where
  "less_eq_number (Fin a) (Fin b) = (a \<le> b)"
| "less_eq_number NaN _ = False"
| "less_eq_number _ NaN = False"
| "less_eq_number NInf _ = True"
| "less_eq_number _ PInf = True"
| "less_eq_number PInf _ = False"
| "less_eq_number _ NInf = False"

instance ..

end

text \<open>\<^verbatim>\<open>Math.max\<close>, \<^verbatim>\<open>Math.min\<close>, \<^verbatim>\<open>Math.abs\<close>, \<^verbatim>\<open>Math.floor\<close>, \<^verbatim>\<open>Math.sqrt\<close> and the
  operator \<^verbatim>\<open>||\<close> on numbers (zero and NaN are falsy).\<close>

definition Math_max :: "number \<Rightarrow> number \<Rightarrow> number" where
  "Math_max a b = (if a = NaN \<or> b = NaN then NaN else if a < b then b else a)"

definition Math_min :: "number \<Rightarrow> number \<Rightarrow> number" where
  "Math_min a b = (if a = NaN \<or> b = NaN then NaN else if b < a then b else a)"

fun Math_abs :: "number \<Rightarrow> number" where
  "Math_abs (Fin a) = Fin \<bar>a\<bar>"
| "Math_abs PInf = PInf"
| "Math_abs NInf = PInf"
| "Math_abs NaN = NaN"

fun Math_floor :: "number \<Rightarrow> number" where
  "Math_floor (Fin a) = Fin (of_int \<lfloor>a\<rfloor>)"
| "Math_floor PInf = PInf"
| "Math_floor NInf = NInf"
| "Math_floor NaN = NaN"

fun Math_sqrt :: "number \<Rightarrow> number" where
  "Math_sqrt (Fin a) = (if a < 0 then NaN else Fin (sqrt a))"
| "Math_sqrt PInf = PInf"
| "Math_sqrt NInf = NaN"
| "Math_sqrt NaN = NaN"

definition or_else :: "number \<Rightarrow> number \<Rightarrow> number" where
  "or_else a b = (if a = Fin 0 \<or> a = NaN then b else a)"

text \<open>An option that is \<^verbatim>\<open>undefined\<close> is \<open>None\<close>; in arithmetic it converts to NaN.\<close>

fun ToNumber :: "number option \<Rightarrow> number" where
  "ToNumber None = NaN"
| "ToNumber (Some v) = v"

section \<open>Grid, options and errors\<close>

text \<open>
  The grid \<^verbatim>\<open>g: Vector3[]\<close> is the list of the elevations \<^verbatim>\<open>g[i].z\<close>; the filters read and
  write no other component. A filter mutates the grid in place and returns nothing: the
  model returns the grid after the call, or the exception the call throws.
\<close>

type_synonym grid = "number list"

datatype error = TypeError | RangeError

text \<open>A call returns (\<open>Inr\<close>, with the grid after the call) or throws (\<open>Inl\<close>, with the error
  and the grid as the call left it: the writes made before the throw stay).\<close>

type_synonym outcome = "(error \<times> grid) + grid"

fun grid_after :: "outcome \<Rightarrow> grid" where
  "grid_after (Inl (err, g)) = g"
| "grid_after (Inr g) = g"

text \<open>
  Modelled from the spec: the record \<^verbatim>\<open>TerrainOptions\<close> of \<^verbatim>\<open>basicTypes\<close>, with the fields the
  filters read. The segment counts are natural numbers; \<^verbatim>\<open>maxHeight\<close> and \<^verbatim>\<open>minHeight\<close> are
  \<open>None\<close> when they are not of type number, \<^verbatim>\<open>easing\<close> is \<open>None\<close> when unset. \<open>ClampOptions\<close> is
  \<^verbatim>\<open>Pick<TerrainOptions, 'maxHeight' | 'minHeight' | 'easing' | 'stretch'>\<close>.
\<close>

record ClampOptions =
  maxHeight :: "number option"
  minHeight :: "number option"
  easing :: "(number \<Rightarrow> number) option"
  stretch :: bool

record TerrainOptions = ClampOptions +
  width :: number
  height :: number
  widthSegments :: nat
  heightSegments :: nat

text \<open>Modelled from the spec: \<^verbatim>\<open>Linear\<close> of \<^verbatim>\<open>core\<close>, the identity easing. The default
  easing of Edges, \<^verbatim>\<open>EaseInOut\<close> of \<^verbatim>\<open>core\<close>, is a parameter of the model of Edges.\<close>

definition Linear :: "number \<Rightarrow> number" where
  "Linear x = x"

text \<open>
  Array reads: \<open>elem xs k\<close> is \<^verbatim>\<open>xs[k]\<close>, \<open>None\<close> where JavaScript gives \<^verbatim>\<open>undefined\<close>.
  \<open>update_cell f k g\<close> is the statement \<^verbatim>\<open>g[k].z = f(g[k].z)\<close>: it throws a TypeError when
  \<^verbatim>\<open>g[k]\<close> is undefined.
\<close>

definition elem :: "'a list \<Rightarrow> int \<Rightarrow> 'a option" where
  "elem xs k = (if 0 \<le> k \<and> k < int (length xs) then Some (xs ! nat k) else None)"

definition update_cell :: "(number \<Rightarrow> number) \<Rightarrow> int \<Rightarrow> grid \<Rightarrow> outcome" where
  "update_cell f k g =
     (case elem g k of None \<Rightarrow> Inl (TypeError, g) | Some z \<Rightarrow> Inr (g[nat k := f z]))"

text \<open>
  Loops. \<open>for_each is body\<close> runs the body for the indices of \<open>is\<close> in order and stops at
  the first throw. \<open>for_below bound body j\<close> is \<^verbatim>\<open>for (; j < bound; j++) body\<close> with a bound
  that is a JavaScript number: with the bound \<^verbatim>\<open>Infinity\<close> and a body that never throws it
  does not return, which is the value \<open>None\<close>.
\<close>

definition and_then :: "'e + 'a \<Rightarrow> ('a \<Rightarrow> 'e + 'b) \<Rightarrow> 'e + 'b" where
  "and_then r f = (case r of Inl e \<Rightarrow> Inl e | Inr a \<Rightarrow> f a)"

primrec for_each :: "nat list \<Rightarrow> (nat \<Rightarrow> 's \<Rightarrow> 'e + 's) \<Rightarrow> 's \<Rightarrow> 'e + 's" where
  "for_each [] body s = Inr s"
| "for_each (i # is) body s =
     (case body i s of Inl e \<Rightarrow> Inl e | Inr s' \<Rightarrow> for_each is body s')"

partial_function (option) for_below ::
  "number \<Rightarrow> (nat \<Rightarrow> 's \<Rightarrow> 'e + 's) \<Rightarrow> nat \<Rightarrow> 's \<Rightarrow> ('e + 's) option" where
  "for_below bound body j s =
     (if Fin (real j) < bound
      then (case body j s of Inl e \<Rightarrow> Some (Inl e) | Inr s' \<Rightarrow> for_below bound body (Suc j) s')
      else Some (Inr s))"

declare for_below.simps [code]

primrec for_each_opt ::
  "nat list \<Rightarrow> (nat \<Rightarrow> 's \<Rightarrow> ('e + 's) option) \<Rightarrow> 's \<Rightarrow> ('e + 's) option" where
  "for_each_opt [] body s = Some (Inr s)"
| "for_each_opt (i # is) body s =
     (case body i s of None \<Rightarrow> None | Some (Inl e) \<Rightarrow> Some (Inl e)
      | Some (Inr s') \<Rightarrow> for_each_opt is body s')"

text \<open>\<^verbatim>\<open>Array.prototype.sort(compare)\<close>, as a stable insertion sort: \<open>x\<close> goes behind \<open>y\<close>
  when \<^verbatim>\<open>compare(x, y) > 0\<close> (a NaN from the comparison counts as 0). Where the comparison
  is consistent every sort gives this order up to elements that compare equal; where it
  is not (an element is NaN), the order depends on the sorting algorithm of the engine
  and need not be this one.\<close>

fun insert_by :: "('a \<Rightarrow> 'a \<Rightarrow> number) \<Rightarrow> 'a \<Rightarrow> 'a list \<Rightarrow> 'a list" where
  "insert_by cmp x [] = [x]"
| "insert_by cmp x (y # ys) = (if Fin 0 < cmp x y then y # insert_by cmp x ys else x # y # ys)"

definition sort_by :: "('a \<Rightarrow> 'a \<Rightarrow> number) \<Rightarrow> 'a list \<Rightarrow> 'a list" where
  "sort_by cmp xs = foldr (insert_by cmp) xs []"

section \<open>applyTerrainClamp\<close>

text \<open>The scan of lines 23-26: the least and the greatest elevation, from
  \<^verbatim>\<open>Infinity\<close> and \<^verbatim>\<open>-Infinity\<close>.\<close>

definition scan_extremes :: "grid \<Rightarrow> number \<times> number" where
  "scan_extremes g =
     fold (\<lambda>z (mn, mx). (if z < mn then z else mn, if z > mx then z else mx)) g (PInf, NInf)"

text \<open>Line 22, \<^verbatim>\<open>options.easing = options.easing || Linear\<close>: \<open>resolved_easing\<close> is the value
  of the right-hand side. The assignment writes to the caller's options object;
  \<open>applyTerrainClamp_options\<close> is that object after the call.\<close>

definition resolved_easing :: "ClampOptions \<Rightarrow> number \<Rightarrow> number" where
  "resolved_easing options = (case easing options of None \<Rightarrow> Linear | Some e \<Rightarrow> e)"

definition applyTerrainClamp_options :: "ClampOptions \<Rightarrow> ClampOptions" where
  "applyTerrainClamp_options options = options\<lparr>easing := Some (resolved_easing options)\<rparr>"

definition applyTerrainClamp :: "grid \<Rightarrow> ClampOptions \<Rightarrow> outcome" where
  "applyTerrainClamp g options =
     (let e = resolved_easing options;
          (mn, mx) = scan_extremes g;
          actualRange = mx - mn;
          optMax = (case maxHeight options of None \<Rightarrow> mx | Some v \<Rightarrow> v);
          optMin = (case minHeight options of None \<Rightarrow> mn | Some v \<Rightarrow> v);
          targetMax = (if stretch options then optMax else (if mx < optMax then mx else optMax));
          targetMin = (if stretch options then optMin else (if mn > optMin then mn else optMin));
          range = targetMax - targetMin;
          range = (if targetMax < targetMin then optMax - targetMin else range)
      in Inr (map (\<lambda>z. e ((z - mn) / actualRange) * range + optMin) g))"

section \<open>applyTerrainClamp in double precision\<close>

text \<open>The arithmetic of \<open>number\<close> is exact on finite numbers; the engine rounds the result of
  each operation to a double. \<open>round_double\<close> is that rounding (IEEE 754 binary64, to the
  nearest double, a tie to the one with the even significand): the result is a
  multiple of the unit in the last place of \<open>x\<close>, where a double has 53 significant bits
  and its exponent is at least -1022, and it is an infinity when it is beyond the
  largest double. The sign of zero is not modelled.\<close>

definition round_half_even :: "real \<Rightarrow> int" where
  "round_half_even q =
     (let f = \<lfloor>q\<rfloor>; r = q - of_int f
      in if r < 1 / 2 then f else if 1 / 2 < r then f + 1 else if even f then f else f + 1)"

definition binade :: "real \<Rightarrow> int" where
  "binade x = max \<lfloor>log 2 \<bar>x\<bar>\<rfloor> (- 1022)"

definition ulp :: "real \<Rightarrow> real" where
  "ulp x = 2 powi (binade x - 52)"

definition largest_double :: real where
  "largest_double = (2 ^ 53 - 1) * 2 ^ 971"

definition round_double :: "real \<Rightarrow> number" where
  "round_double x =
     (if x = 0 then Fin 0
      else let r = of_int (round_half_even (x / ulp x)) * ulp x
           in if largest_double < r then PInf else if r < - largest_double then NInf else Fin r)"

text \<open>The result of an operation, rounded by \<open>rd\<close>; an infinity and NaN are results
  as they are.\<close>

definition rounded :: "(real \<Rightarrow> number) \<Rightarrow> number \<Rightarrow> number" where
  "rounded rd x = (case x of Fin a \<Rightarrow> rd a | _ \<Rightarrow> x)"

text \<open>applyTerrainClamp with the result of each subtraction, division, multiplication and
  addition of lines 27-38 rounded by \<open>rd\<close>: with \<open>rd = round_double\<close> the function as the
  engine computes it, with \<open>rd = Fin\<close> (no rounding) \<open>applyTerrainClamp\<close> above. The easing
  function is the caller's and does its own arithmetic.\<close>

definition applyTerrainClamp_rounded :: "(real \<Rightarrow> number) \<Rightarrow> grid \<Rightarrow> ClampOptions \<Rightarrow> outcome" where
  "applyTerrainClamp_rounded rd g options =
     (let e = resolved_easing options;
          (mn, mx) = scan_extremes g;
          actualRange = rounded rd (mx - mn);
          optMax = (case maxHeight options of None \<Rightarrow> mx | Some v \<Rightarrow> v);
          optMin = (case minHeight options of None \<Rightarrow> mn | Some v \<Rightarrow> v);
          targetMax = (if stretch options then optMax else (if mx < optMax then mx else optMax));
          targetMin = (if stretch options then optMin else (if mn > optMin then mn else optMin));
          range = rounded rd (targetMax - targetMin);
          range = (if targetMax < targetMin then rounded rd (optMax - targetMin) else range)
      in Inr (map (\<lambda>z. rounded rd (rounded rd (e (rounded rd (rounded rd (z - mn) / actualRange)) * range)
                              + optMin)) g))"

section \<open>Edges\<close>

text \<open>Lines 74-75: \<^verbatim>\<open>Math.floor(distance / (extent / segments)) || 1\<close>.\<close>

definition numSegments :: "number \<Rightarrow> number \<Rightarrow> nat \<Rightarrow> number" where
  "numSegments distance extent segments =
     or_else (Math_floor (distance / (extent / Fin (real segments)))) (Fin 1)"

text \<open>Lines 91, 94, 104, 107, 163 and 166:
  \<^verbatim>\<open>max(g[k].z, (peak - g[k].z) * multiplier + g[k].z)\<close>, where \<^verbatim>\<open>max\<close> is \<^verbatim>\<open>Math.max\<close> when
  \<^verbatim>\<open>direction\<close> is true and \<^verbatim>\<open>Math.min\<close> otherwise.\<close>

definition push :: "bool \<Rightarrow> number \<Rightarrow> number \<Rightarrow> number \<Rightarrow> number" where
  "push direction peak multiplier z =
     (if direction then Math_max else Math_min) z ((peak - z) * multiplier + z)"

record EdgeSelection =
  edge_top :: bool
  edge_bottom :: bool
  edge_left :: bool
  edge_right :: bool

text \<open>Lines 82-84: all four edges when \<^verbatim>\<open>edges\<close> is not an object.\<close>

definition resolved_edges :: "EdgeSelection option \<Rightarrow> EdgeSelection" where
  "resolved_edges edges =
     (case edges of
        None \<Rightarrow> \<lparr>edge_top = True, edge_bottom = True, edge_left = True, edge_right = True\<rparr>
      | Some s \<Rightarrow> s)"

text \<open>The body of the first loop nest (lines 87-95), at column \<open>i\<close> and step \<open>j\<close>.\<close>

definition Edges_row_step ::
  "TerrainOptions \<Rightarrow> bool \<Rightarrow> number \<Rightarrow> (number \<Rightarrow> number) \<Rightarrow> EdgeSelection
     \<Rightarrow> nat \<Rightarrow> nat \<Rightarrow> grid \<Rightarrow> outcome" where
  "Edges_row_step options direction distance e edges i j g =
     (let numYSegments = numSegments distance (height options) (heightSegments options);
          peak = ToNumber (if direction then maxHeight options else minHeight options);
          xl = widthSegments options + 1;
          multiplier = e (Fin 1 - Fin (real j) / numYSegments);
          k1 = int j * int xl + int i;
          k2 = (int (heightSegments options) - int j) * int xl + int i
      in and_then (if edge_top edges then update_cell (push direction peak multiplier) k1 g else Inr g)
           (\<lambda>g. if edge_bottom edges then update_cell (push direction peak multiplier) k2 g else Inr g))"

text \<open>The body of the second loop nest (lines 100-108), at row \<open>i\<close> and step \<open>j\<close>.\<close>

definition Edges_column_step ::
  "TerrainOptions \<Rightarrow> bool \<Rightarrow> number \<Rightarrow> (number \<Rightarrow> number) \<Rightarrow> EdgeSelection
     \<Rightarrow> nat \<Rightarrow> nat \<Rightarrow> grid \<Rightarrow> outcome" where
  "Edges_column_step options direction distance e edges i j g =
     (let numXSegments = numSegments distance (width options) (widthSegments options);
          peak = ToNumber (if direction then maxHeight options else minHeight options);
          xl = widthSegments options + 1;
          multiplier = e (Fin 1 - Fin (real j) / numXSegments);
          k1 = int i * int xl + int j;
          k2 = (int (heightSegments options) - int i) * int xl
                 + (int (widthSegments options) - int j)
      in and_then (if edge_left edges then update_cell (push direction peak multiplier) k1 g else Inr g)
           (\<lambda>g. if edge_right edges then update_cell (push direction peak multiplier) k2 g else Inr g))"

text \<open>Lines 74-110: the two loop nests, before the grid is normalised again.\<close>

definition Edges_shape ::
  "(number \<Rightarrow> number) \<Rightarrow> grid \<Rightarrow> TerrainOptions \<Rightarrow> bool \<Rightarrow> number \<Rightarrow> (number \<Rightarrow> number) option
     \<Rightarrow> EdgeSelection option \<Rightarrow> outcome option" where
  "Edges_shape EaseInOut g options direction distance easing_arg edges_arg =
     (let numXSegments = numSegments distance (width options) (widthSegments options);
          numYSegments = numSegments distance (height options) (heightSegments options);
          xl = widthSegments options + 1;
          yl = heightSegments options + 1;
          e = (case easing_arg of None \<Rightarrow> EaseInOut | Some f \<Rightarrow> f);
          edges = resolved_edges edges_arg
      in case for_each_opt [0..<xl]
                (\<lambda>i. for_below numYSegments (Edges_row_step options direction distance e edges i) 0) g of
           None \<Rightarrow> None
         | Some (Inl thrown) \<Rightarrow> Some (Inl thrown)
         | Some (Inr g) \<Rightarrow>
             for_each_opt [0..<yl]
               (\<lambda>i. for_below numXSegments (Edges_column_step options direction distance e edges i) 0) g)"

definition Edges ::
  "(number \<Rightarrow> number) \<Rightarrow> grid \<Rightarrow> TerrainOptions \<Rightarrow> bool \<Rightarrow> number \<Rightarrow> (number \<Rightarrow> number) option
     \<Rightarrow> EdgeSelection option \<Rightarrow> outcome option" where
  "Edges EaseInOut g options direction distance easing_arg edges_arg =
     (case Edges_shape EaseInOut g options direction distance easing_arg edges_arg of
        None \<Rightarrow> None
      | Some (Inl thrown) \<Rightarrow> Some (Inl thrown)
      | Some (Inr g) \<Rightarrow>
          Some (applyTerrainClamp g
                  \<lparr>maxHeight = maxHeight options, minHeight = minHeight options,
                   easing = Some Linear, stretch = True\<rparr>))"

section \<open>RadialEdges\<close>

text \<open>Line 160, and the test of line 161: the distance of vertex \<open>(i, j)\<close> beyond
  \<^verbatim>\<open>distance\<close>, capped at \<^verbatim>\<open>edgeRadius\<close>.\<close>

definition edgeRadius :: "TerrainOptions \<Rightarrow> number \<Rightarrow> number" where
  "edgeRadius options distance = Math_min (width options) (height options) * Fin 0.5 - distance"

definition vertexDistance :: "TerrainOptions \<Rightarrow> number \<Rightarrow> nat \<Rightarrow> nat \<Rightarrow> number" where
  "vertexDistance options distance i j =
     (let xl2 = Fin (real (widthSegments options + 1)) * Fin 0.5;
          yl2 = Fin (real (heightSegments options + 1)) * Fin 0.5;
          xSegmentSize = width options / Fin (real (widthSegments options));
          ySegmentSize = height options / Fin (real (heightSegments options))
      in Math_min (edgeRadius options distance)
           (Math_sqrt ((xl2 - Fin (real i)) * xSegmentSize * (xl2 - Fin (real i)) * xSegmentSize
                       + (yl2 - Fin (real j)) * ySegmentSize * (yl2 - Fin (real j)) * ySegmentSize)
            - distance))"

text \<open>The body of the loop nest (lines 159-166), at column \<open>i\<close> and row \<open>j\<close>.\<close>

definition RadialEdges_step ::
  "TerrainOptions \<Rightarrow> bool \<Rightarrow> number \<Rightarrow> (number \<Rightarrow> number) \<Rightarrow> nat \<Rightarrow> nat \<Rightarrow> grid \<Rightarrow> outcome" where
  "RadialEdges_step options direction distance e i j g =
     (let peak = ToNumber (if direction then maxHeight options else minHeight options);
          xl = widthSegments options + 1
      in if vertexDistance options distance i j < Fin 0 then Inr g
         else
           let multiplier = e (vertexDistance options distance i j / edgeRadius options distance)
           in and_then (update_cell (push direction peak multiplier) (int j * int xl + int i) g)
                (update_cell (push direction peak multiplier)
                   ((int (heightSegments options) - int j) * int xl + int i)))"

text \<open>The inner loop runs while \<^verbatim>\<open>j < yl2\<close>, \<^verbatim>\<open>yl2 = yl * 0.5\<close>: for the rows
  \<open>0, \<dots>, \<lceil>yl / 2\<rceil> - 1\<close>.\<close>

definition RadialEdges ::
  "grid \<Rightarrow> TerrainOptions \<Rightarrow> bool \<Rightarrow> number \<Rightarrow> (number \<Rightarrow> number) \<Rightarrow> outcome" where
  "RadialEdges g options direction distance e =
     (let xl = widthSegments options + 1;
          yl = heightSegments options + 1;
          yl2 = real yl * 0.5
      in for_each [0..<xl]
           (\<lambda>i. for_each [0..<nat \<lceil>yl2\<rceil>] (RadialEdges_step options direction distance e i)) g)"

section \<open>The smoothing filters\<close>

text \<open>The offsets \<open>(n, m)\<close> of the two inner loops, \<open>n\<close> outside, and the test of lines 194
  and 228 on the neighbour at row \<open>j + n\<close> and column \<open>i + m\<close>, whose key is
  \<^verbatim>\<open>(j + n) * xl + i + m\<close>.\<close>

definition offsets :: "(int \<times> int) list" where
  "offsets = concat (map (\<lambda>n. map (\<lambda>m. (n, m)) [-1, 0, 1]) [-1, 0, 1])"

definition neighbor_key :: "nat \<Rightarrow> nat \<Rightarrow> nat \<Rightarrow> int \<times> int \<Rightarrow> int" where
  "neighbor_key xl i j nm = (int j + fst nm) * int xl + int i + snd nm"

definition is_neighbor :: "grid \<Rightarrow> nat \<Rightarrow> nat \<Rightarrow> nat \<Rightarrow> nat \<Rightarrow> int \<times> int \<Rightarrow> bool" where
  "is_neighbor g xl yl i j nm =
     (elem g (neighbor_key xl i j nm) \<noteq> None
      \<and> int i + snd nm \<ge> 0 \<and> int j + fst nm \<ge> 0
      \<and> int i + snd nm < int xl \<and> int j + fst nm < int yl)"

text \<open>\<open>scan_cells xl yl cell hm\<close> is the loop nest \<^verbatim>\<open>for i < xl, for j < yl\<close> over the scratch
  buffer \<open>hm\<close> (a \<^verbatim>\<open>Float64Array\<close>: a write beyond its end is ignored); \<open>cell i j hm\<close> is the
  buffer after the body at \<open>(i, j)\<close>, or the error the body throws.\<close>

definition scan_cells ::
  "nat \<Rightarrow> nat \<Rightarrow> (nat \<Rightarrow> nat \<Rightarrow> number list \<Rightarrow> error + number list) \<Rightarrow> number list
     \<Rightarrow> error + number list" where
  "scan_cells xl yl cell hm = for_each [0..<xl] (\<lambda>i. for_each [0..<yl] (cell i)) hm"

text \<open>The loop that ends each smoothing filter, with \<open>f k\<close> the new elevation of cell
  \<open>k\<close>; the scan before it does not write to the grid, so a throw leaves the grid as it
  was.\<close>

definition commit :: "grid \<Rightarrow> (nat \<Rightarrow> number list \<Rightarrow> number) \<Rightarrow> error + number list \<Rightarrow> outcome" where
  "commit g f r =
     (case r of Inl thrown \<Rightarrow> Inl (thrown, g)
      | Inr heightmap \<Rightarrow> Inr (map (\<lambda>k. f k heightmap) [0..<length g]))"

subsection \<open>applyTerrainSmooth\<close>

definition smooth_mean :: "grid \<Rightarrow> nat \<Rightarrow> nat \<Rightarrow> nat \<Rightarrow> nat \<Rightarrow> number" where
  "smooth_mean g xl yl i j =
     (let (sum, c) =
            fold (\<lambda>nm (sum, c).
                    if is_neighbor g xl yl i j nm
                    then (sum + g ! nat (neighbor_key xl i j nm), c + 1)
                    else (sum, c))
              offsets (Fin 0, 0 :: nat)
      in sum / Fin (real c))"

definition applyTerrainSmooth :: "grid \<Rightarrow> TerrainOptions \<Rightarrow> number option \<Rightarrow> outcome" where
  "applyTerrainSmooth g options weight_arg =
     (let weight = (case weight_arg of None \<Rightarrow> Fin 0 | Some v \<Rightarrow> v);
          xl = widthSegments options + 1;
          yl = heightSegments options + 1;
          w = Fin 1 / (Fin 1 + weight)
      in commit g (\<lambda>k heightmap. (heightmap ! k + g ! k * weight) * w)
           (scan_cells xl yl (\<lambda>i j hm. Inr (hm[j * xl + i := smooth_mean g xl yl i j]))
              (replicate (length g) (Fin 0))))"

subsection \<open>SmoothMedian\<close>

text \<open>\<open>read_z g key\<close> is \<^verbatim>\<open>g[key].z\<close> for a key that may itself be undefined.\<close>

definition read_z :: "grid \<Rightarrow> int option \<Rightarrow> error + number" where
  "read_z g key =
     (case key of None \<Rightarrow> Inl TypeError
      | Some k \<Rightarrow> (case elem g k of None \<Rightarrow> Inl TypeError | Some z \<Rightarrow> Inr z))"

text \<open>Lines 223-242. The comparison \<^verbatim>\<open>sortByValue\<close> indexes \<^verbatim>\<open>neighborValues\<close> with the
  keys themselves.\<close>

definition smooth_median :: "grid \<Rightarrow> nat \<Rightarrow> nat \<Rightarrow> nat \<Rightarrow> nat \<Rightarrow> error + number" where
  "smooth_median g xl yl i j =
     (let (neighborValues, neighborKeys) =
            fold (\<lambda>nm (vs, ks).
                    if is_neighbor g xl yl i j nm
                    then (vs @ [g ! nat (neighbor_key xl i j nm)], ks @ [neighbor_key xl i j nm])
                    else (vs, ks))
              offsets ([], []);
          sortByValue = (\<lambda>a b. ToNumber (elem neighborValues a) - ToNumber (elem neighborValues b));
          neighborKeys = sort_by sortByValue neighborKeys;
          halfKey = int (length neighborKeys) div 2
      in if length neighborKeys mod 2 = 1
         then read_z g (elem neighborKeys halfKey)
         else and_then (read_z g (elem neighborKeys (halfKey - 1)))
                (\<lambda>a. and_then (read_z g (elem neighborKeys halfKey))
                  (\<lambda>b. Inr ((a + b) * Fin 0.5))))"

definition SmoothMedian :: "grid \<Rightarrow> TerrainOptions \<Rightarrow> outcome" where
  "SmoothMedian g options =
     (let xl = widthSegments options + 1;
          yl = heightSegments options + 1
      in commit g (\<lambda>k heightmap. heightmap ! k)
           (scan_cells xl yl
              (\<lambda>i j hm. and_then (smooth_median g xl yl i j) (\<lambda>median. Inr (hm[j * xl + i := median])))
              (replicate (length g) (Fin 0))))"

subsection \<open>SmoothConservative\<close>

text \<open>Lines 271-281: the least and the greatest elevation among the neighbours that
  pass the test of line 276, which also asks for \<^verbatim>\<open>n\<close> and \<^verbatim>\<open>m\<close> to be truthy.\<close>

definition conservative_extremes :: "grid \<Rightarrow> nat \<Rightarrow> nat \<Rightarrow> nat \<Rightarrow> nat \<Rightarrow> number \<times> number" where
  "conservative_extremes g xl yl i j =
     fold (\<lambda>nm (mn, mx).
             if is_neighbor g xl yl i j nm \<and> fst nm \<noteq> 0 \<and> snd nm \<noteq> 0
             then (if g ! nat (neighbor_key xl i j nm) < mn then g ! nat (neighbor_key xl i j nm) else mn,
                   if g ! nat (neighbor_key xl i j nm) > mx then g ! nat (neighbor_key xl i j nm) else mx)
             else (mn, mx))
       offsets (PInf, NInf)"

text \<open>Lines 282-289.\<close>

definition conservative_cell ::
  "grid \<Rightarrow> nat \<Rightarrow> nat \<Rightarrow> number option \<Rightarrow> nat \<Rightarrow> nat \<Rightarrow> error + number" where
  "conservative_cell g xl yl multiplier i j =
     (let (mn, mx) = conservative_extremes g xl yl i j;
          kk = j * xl + i;
          (mn, mx) = (case multiplier of
                        None \<Rightarrow> (mn, mx)
                      | Some mu \<Rightarrow>
                          let halfdiff = (mx - mn) * Fin 0.5;
                              middle = mn + halfdiff
                          in (middle - halfdiff * mu, middle + halfdiff * mu))
      in case elem g (int kk) of
           None \<Rightarrow> Inl TypeError
         | Some z \<Rightarrow> Inr (if z > mx then mx else (if z < mn then mn else z)))"

definition SmoothConservative :: "grid \<Rightarrow> TerrainOptions \<Rightarrow> number option \<Rightarrow> outcome" where
  "SmoothConservative g options multiplier =
     (let xl = widthSegments options + 1;
          yl = heightSegments options + 1
      in commit g (\<lambda>k heightmap. heightmap ! k)
           (scan_cells xl yl
              (\<lambda>i j hm. and_then (conservative_cell g xl yl multiplier i j)
                           (\<lambda>v. Inr (hm[j * xl + i := v])))
              (replicate (length g) (Fin 0))))"

section \<open>applyTerrainStep\<close>

text \<open>\<^verbatim>\<open>new Array(levels)\<close> throws a RangeError unless \<^verbatim>\<open>levels\<close> is an integer from 0 to
  \<open>2\<^sup>3\<^sup>2 - 1\<close>.\<close>

fun array_length :: "number \<Rightarrow> nat option" where
  "array_length (Fin r) =
     (if of_int \<lfloor>r\<rfloor> = r \<and> 0 \<le> r \<and> r < 2 ^ 32 then Some (nat \<lfloor>r\<rfloor>) else None)"
| "array_length PInf = None"
| "array_length NInf = None"
| "array_length NaN = None"

record Bucket =
  minB :: number
  maxB :: number
  avg :: number

text \<open>Lines 324-334, for the bucket \<open>i\<close>. \<^verbatim>\<open>subset[0]\<close> and \<^verbatim>\<open>subset[subset.length - 1]\<close> are
  undefined for an empty slice; line 341 only compares them with a number, where
  undefined converts to NaN.\<close>

definition bucket :: "number list \<Rightarrow> nat \<Rightarrow> nat \<Rightarrow> Bucket" where
  "bucket heights inc i =
     (let subset = take ((i + 1) * inc - i * inc) (drop (i * inc) heights);
          sum = fold (\<lambda>x sum. sum + x) subset (Fin 0);
          bl = length subset
      in \<lparr>minB = ToNumber (elem subset 0),
          maxB = ToNumber (elem subset (int (length subset) - 1)),
          avg = sum / Fin (real bl)\<rparr>)"

text \<open>Lines 339-345: the average of the first bucket whose interval holds the
  elevation, or the elevation itself when there is none.\<close>

definition step_cell :: "Bucket list \<Rightarrow> number \<Rightarrow> number" where
  "step_cell buckets startHeight =
     (case find (\<lambda>b. startHeight \<ge> minB b \<and> startHeight \<le> maxB b) buckets of
        None \<Rightarrow> startHeight
      | Some b \<Rightarrow> avg b)"

text \<open>\<open>inc\<close> is read only when there is a bucket, that is when \<open>levels > 0\<close>, and is then
  \<open>\<lfloor>l / levels\<rfloor>\<close>.\<close>

definition step_buckets :: "grid \<Rightarrow> nat \<Rightarrow> Bucket list" where
  "step_buckets g levels =
     (let inc = length g div levels;
          heights = sort_by (\<lambda>a b. a - b) g
      in map (bucket heights inc) [0..<levels])"

text \<open>Lines 310-312: the default of \<^verbatim>\<open>levels\<close>, \<^verbatim>\<open>Math.floor(Math.pow(l * 0.5, 0.25))\<close>.\<close>

definition resolved_levels :: "nat \<Rightarrow> number option \<Rightarrow> number" where
  "resolved_levels l levels_arg =
     (case levels_arg of
        None \<Rightarrow> Math_floor (Fin ((real l * 0.5) powr 0.25))
      | Some v \<Rightarrow> v)"

definition applyTerrainStep :: "grid \<Rightarrow> number option \<Rightarrow> outcome" where
  "applyTerrainStep g levels_arg =
     (case array_length (resolved_levels (length g) levels_arg) of
        None \<Rightarrow> Inl (RangeError, g)
      | Some levels \<Rightarrow> Inr (map (step_cell (step_buckets g levels)) g))"

section \<open>applyTurbulenceTurbulence\<close>

definition applyTurbulenceTurbulence :: "grid \<Rightarrow> TerrainOptions \<Rightarrow> outcome" where
  "applyTurbulenceTurbulence g options =
     (let range = ToNumber (maxHeight options) - ToNumber (minHeight options)
      in Inr (map (\<lambda>z. ToNumber (minHeight options)
                         + Math_abs ((z - ToNumber (minHeight options)) * Fin 2 - range)) g))"

section \<open>Notions used in the properties\<close>

subsection \<open>Range normalisation\<close>

text \<open>An easing function that maps \<open>[0, 1]\<close> into \<open>[0, 1]\<close>.\<close>

definition eases_unit :: "(number \<Rightarrow> number) \<Rightarrow> bool" where
  "eases_unit e = (\<forall>t. 0 \<le> t \<and> t \<le> 1 \<longrightarrow> (\<exists>u. e (Fin t) = Fin u \<and> 0 \<le> u \<and> u \<le> 1))"



text \<open>The target bounds and the interval as the specification states them:
  \<open>targetMax = min(max, optMax)\<close> and \<open>targetMin = max(min, optMin)\<close> without stretch,
  \<open>optMax\<close> and \<open>optMin\<close> with it, and every elevation within
  \<open>[min(targetMin, targetMax), max(targetMin, targetMax)]\<close>.\<close>

definition claimed_targetMax :: "bool \<Rightarrow> real \<Rightarrow> real \<Rightarrow> real" where
  "claimed_targetMax str mx optMax = (if str then optMax else min mx optMax)"

definition claimed_targetMin :: "bool \<Rightarrow> real \<Rightarrow> real \<Rightarrow> real" where
  "claimed_targetMin str mn optMin = (if str then optMin else max mn optMin)"

definition in_claimed_interval :: "bool \<Rightarrow> real \<Rightarrow> real \<Rightarrow> real \<Rightarrow> real \<Rightarrow> number \<Rightarrow> bool" where
  "in_claimed_interval str mn mx optMin optMax z =
     (Fin (min (claimed_targetMin str mn optMin) (claimed_targetMax str mx optMax)) \<le> z
      \<and> z \<le> Fin (max (claimed_targetMin str mn optMin) (claimed_targetMax str mx optMax)))"







subsection \<open>The conservative clamp\<close>






subsection \<open>Edge shaping\<close>

text \<open>The function that lines 163 and 166 apply to the two cells of the step at column \<open>i\<close>
  and row \<open>j\<close>: the push towards the peak with the multiplier of line 162.\<close>

definition radial_push ::
  "TerrainOptions \<Rightarrow> bool \<Rightarrow> number \<Rightarrow> (number \<Rightarrow> number) \<Rightarrow> nat \<Rightarrow> nat \<Rightarrow> number \<Rightarrow> number" where
  "radial_push options direction distance e i j =
     push direction (ToNumber (if direction then maxHeight options else minHeight options))
       (e (vertexDistance options distance i j / edgeRadius options distance))"

text \<open>\<open>pushed direction g g'\<close>: the grids have the same length, their elevations are finite,
  and every cell of \<open>g'\<close> is at least (with \<open>direction\<close>) or at most (without) what it is in
  \<open>g\<close>.\<close>

definition pushed :: "bool \<Rightarrow> grid \<Rightarrow> grid \<Rightarrow> bool" where
  "pushed direction g g' =
     (length g' = length g
      \<and> (\<forall>k<length g. \<exists>a b. g ! k = Fin a \<and> g' ! k = Fin b \<and> (if direction then a \<le> b else b \<le> a)))"

text \<open>The settings in which the multipliers are finite and no cell index leaves the grid.
  For RadialEdges: finite extents and distance, at least one segment on each axis, an
  annulus of positive depth (\<^verbatim>\<open>edgeRadius > 0\<close>) and an easing function that maps \<open>[0, 1]\<close> into
  \<open>[0, 1]\<close>. For Edges: the numbers of segments of the band, \<^verbatim>\<open>numXSegments\<close> and
  \<^verbatim>\<open>numYSegments\<close>, are at most the numbers of columns and rows, and the easing function
  maps \<open>[0, 1]\<close> into \<open>[0, 1]\<close>.\<close>

definition radial_setting :: "TerrainOptions \<Rightarrow> number \<Rightarrow> (number \<Rightarrow> number) \<Rightarrow> bool" where
  "radial_setting options distance e =
     (\<exists>w h d. width options = Fin w \<and> height options = Fin h \<and> distance = Fin d
        \<and> 0 < widthSegments options \<and> 0 < heightSegments options
        \<and> d < min w h * 0.5 \<and> eases_unit e)"

definition edges_setting :: "TerrainOptions \<Rightarrow> number \<Rightarrow> (number \<Rightarrow> number) \<Rightarrow> bool" where
  "edges_setting options distance e =
     (\<exists>nx ny. numSegments distance (width options) (widthSegments options) = Fin (real nx)
        \<and> nx \<le> widthSegments options + 1
        \<and> numSegments distance (height options) (heightSegments options) = Fin (real ny)
        \<and> ny \<le> heightSegments options + 1
        \<and> eases_unit e)"

section \<open>Arithmetic of finite numbers\<close>

lemma Fin_minus [simp]: "Fin a - Fin b = Fin (a - b)"
  by (simp add: minus_number_def)

lemma Fin_divide [simp]: "b \<noteq> 0 \<Longrightarrow> Fin a / Fin b = Fin (a / b)"
  by simp

section \<open>The turbulence fold\<close>


section \<open>Range normalisation\<close>

subsection \<open>The scan and the cells of a grid of finite elevations\<close>

lemma scan_fold_Fin:
  "fold (\<lambda>z (mn, mx). (if z < mn then z else mn, if z > mx then z else mx)) (map Fin zs) (Fin a, Fin b)
     = (Fin (fold min zs a), Fin (fold max zs b))"
  by (induction zs arbitrary: a b) (auto simp: min_def max_def)

lemma scan_extremes_Fin:
  assumes "zs \<noteq> []"
  shows "scan_extremes (map Fin zs) = (Fin (Min (set zs)), Fin (Max (set zs)))"
proof -
  obtain z zs' where zs: "zs = z # zs'" using assms by (cases zs) auto
  show ?thesis
    unfolding zs scan_extremes_def
    by (simp add: scan_fold_Fin Min.set_eq_fold Max.set_eq_fold del: set_simps)
qed

lemma scan_extremes_flat:
  "0 < n \<Longrightarrow> scan_extremes (replicate n (Fin c)) = (Fin c, Fin c)"
  using scan_extremes_Fin [of "replicate n c"] by (simp add: map_replicate)







subsection \<open>The interval of the normalised elevations\<close>

text \<open>
  C1. The specification places every elevation, after the call, within
  \<open>[min(targetMin, targetMax), max(targetMin, targetMax)]\<close>, and the doc comment of
  applyTerrainClamp (line 6) says that the heightmap is kept within the range of the
  options. Line 31 computes \<^verbatim>\<open>targetMin\<close>, but line 38 adds \<^verbatim>\<open>optMin\<close>. Without stretch, the grid
  \<open>[5, 10]\<close> with \<^verbatim>\<open>minHeight = 0\<close> and \<^verbatim>\<open>maxHeight = 20\<close> has \<open>targetMin = 5\<close> and
  \<open>targetMax = 10\<close>, and the code returns \<open>[0, 5]\<close>: 0 is not within \<open>[5, 10]\<close>. With
  \<^verbatim>\<open>maxHeight = 2\<close> the same grid lies above the range of the options, lines 33-36 leave
  \<^verbatim>\<open>range = 2 - 5\<close> negative, and the code returns \<open>[0, -3]\<close>: -3 is below \<^verbatim>\<open>minHeight\<close>, within
  neither the interval \<open>[2, 5]\<close> of the specification nor the range \<open>[0, 2]\<close> of the options.
\<close>

theorem clamp_offset_outside_range:
  "applyTerrainClamp [Fin 5, Fin 10]
      \<lparr>maxHeight = Some (Fin 20), minHeight = Some (Fin 0), easing = Some Linear, stretch = False\<rparr>
     = Inr [Fin 0, Fin 5]
   \<and> \<not> in_claimed_interval False 5 10 0 20 (Fin 0)
   \<and> applyTerrainClamp [Fin 5, Fin 10]
      \<lparr>maxHeight = Some (Fin 2), minHeight = Some (Fin 0), easing = Some Linear, stretch = False\<rparr>
     = Inr [Fin 0, Fin (- 3)]
   \<and> \<not> in_claimed_interval False 5 10 0 2 (Fin (- 3))
   \<and> Fin (- 3) < Fin 0"
  by (simp add: applyTerrainClamp_def scan_extremes_def Let_def Linear_def resolved_easing_def
      in_claimed_interval_def claimed_targetMin_def claimed_targetMax_def)

subsection \<open>A flat grid\<close>

text \<open>
  C4. The specification asks for an explicit error on a flat grid. On the 5x5 grid with
  every elevation 5, \<^verbatim>\<open>maxHeight = 10\<close> and \<^verbatim>\<open>minHeight = 0\<close>, applyTerrainClamp throws nothing:
  \<^verbatim>\<open>actualRange\<close> is 0, line 38 divides 0 by it without a test, and the call returns with
  NaN in each of the 25 cells, a value within no range, where the doc comment (line 6)
  says that the heightmap is kept within the range of the options.
\<close>

theorem clamp_flat_grid_NaN:
  "\<not> isl (applyTerrainClamp (replicate 25 (Fin 5))
            \<lparr>maxHeight = Some (Fin 10), minHeight = Some (Fin 0), easing = None, stretch = False\<rparr>)
   \<and> applyTerrainClamp (replicate 25 (Fin 5))
        \<lparr>maxHeight = Some (Fin 10), minHeight = Some (Fin 0), easing = None, stretch = False\<rparr>
     = Inr (replicate 25 NaN)
   \<and> \<not> (Fin 0 \<le> NaN \<and> NaN \<le> Fin 10)"
  by (simp add: applyTerrainClamp_def scan_extremes_flat Let_def Linear_def resolved_easing_def)

subsection \<open>Rounding to a double\<close>

lemma rounded_Fin [simp]: "rounded Fin x = x"
  by (cases x) (simp_all add: rounded_def)

lemma rounded_simps [simp]:
  "rounded rd (Fin a) = rd a" "rounded rd PInf = PInf" "rounded rd NInf = NInf" "rounded rd NaN = NaN"
  by (simp_all add: rounded_def)

lemma applyTerrainClamp_rounded_Fin:
  "applyTerrainClamp_rounded Fin g options = applyTerrainClamp g options"
proof -
  have r: "rounded Fin = (\<lambda>x. x)" by (rule ext) simp
  show ?thesis
    unfolding applyTerrainClamp_rounded_def applyTerrainClamp_def r ..
qed

lemma round_double_0 [simp]: "round_double 0 = Fin 0"
  by (simp add: round_double_def)






























subsection \<open>Normalising twice\<close>





section \<open>The step quantizer\<close>

lemma step_buckets_123:
  "step_buckets [Fin 1, Fin 2, Fin 3] 2
     = [\<lparr>minB = Fin 1, maxB = Fin 1, avg = Fin 1\<rparr>, \<lparr>minB = Fin 2, maxB = Fin 2, avg = Fin 2\<rparr>]"
  by (simp add: step_buckets_def sort_by_def bucket_def elem_def upt_rec)

text \<open>
  C3. The specification promises that after applyTerrainStep with \<open>levels = k > 0\<close> the
  grid holds at most \<open>k\<close> distinct elevations. On the grid \<open>[1, 2, 3]\<close> with \<open>levels = 2\<close> the code builds
  the buckets \<open>[1, 1]\<close> and \<open>[2, 2]\<close> from slices of \<open>\<lfloor>3 / 2\<rfloor> = 1\<close> element; the elevation 3 is
  in no slice, matches no bucket and stays: the grid is returned with its three
  distinct elevations.
\<close>

theorem step_leftover_levels:
  "applyTerrainStep [Fin 1, Fin 2, Fin 3] (Some (Fin 2)) = Inr [Fin 1, Fin 2, Fin 3]
   \<and> card (set [Fin 1, Fin 2, Fin 3]) = 3"
  by (simp add: applyTerrainStep_def resolved_levels_def step_buckets_123 step_cell_def)

text \<open>
  C6. When applyTerrainStep runs (\<^verbatim>\<open>levels\<close> is a valid array length), a cell whose
  elevation lies in the interval \<open>[min, max]\<close> of no bucket keeps its elevation. Such
  a cell exists: the cell of elevation 3 in the grid \<open>[1, 2, 3]\<close> with \<open>levels = 2\<close>, left
  over by the slices of one element.
\<close>

theorem step_unmatched_cell:
  assumes "array_length (resolved_levels (length g) levels_arg) = Some levels"
    and "i < length g"
    and "\<forall>b\<in>set (step_buckets g levels). \<not> (minB b \<le> g ! i \<and> g ! i \<le> maxB b)"
  shows "\<exists>g'. applyTerrainStep g levels_arg = Inr g' \<and> length g' = length g \<and> g' ! i = g ! i"
proof -
  have "find (\<lambda>b. g ! i \<ge> minB b \<and> g ! i \<le> maxB b) (step_buckets g levels) = None"
    using assms(3) by (simp add: find_None_iff)
  then have "step_cell (step_buckets g levels) (g ! i) = g ! i"
    by (simp add: step_cell_def)
  then show ?thesis
    using assms(1,2) by (simp add: applyTerrainStep_def)
qed

theorem step_unmatched_cell_witness:
  "\<exists>g'. applyTerrainStep [Fin 1, Fin 2, Fin 3] (Some (Fin 2)) = Inr g' \<and> length g' = 3 \<and> g' ! 2 = Fin 3"
  using step_unmatched_cell [of "[Fin 1, Fin 2, Fin 3]" "Some (Fin 2)" 2 2]
  by (simp add: resolved_levels_def step_buckets_123 numeral_3_eq_3)

section \<open>The length of the grid\<close>

lemma update_cell_length: "length (grid_after (update_cell f k g)) = length g"
  by (simp add: update_cell_def split: option.split)

lemma and_then_length:
  assumes "length (grid_after r) = n"
    and "\<And>g. length g = n \<Longrightarrow> length (grid_after (f g)) = n"
  shows "length (grid_after (and_then r f)) = n"
  using assms by (cases r) (auto simp: and_then_def)

lemma for_each_length:
  assumes "\<And>i s. length (grid_after (body i s)) = length s"
  shows "length (grid_after (for_each is body s)) = length s"
proof (induction "is" arbitrary: s)
  case Nil
  then show ?case by simp
next
  case (Cons i "is")
  show ?case
  proof (cases "body i s")
    case (Inl x)
    then show ?thesis using assms [of i s] by simp
  next
    case (Inr s')
    then show ?thesis using assms [of i s] Cons.IH [of s'] by simp
  qed
qed

lemma for_below_length:
  assumes "for_below bound body j s = Some r"
    and "\<And>j s. length (grid_after (body j s)) = length s"
  shows "length (grid_after r) = length s"
proof -
  let ?P = "\<lambda>(bound :: number) (body :: nat \<Rightarrow> grid \<Rightarrow> outcome) (j :: nat) (s :: grid) (r :: outcome).
      (\<forall>j s. length (grid_after (body j s)) = length s) \<longrightarrow> length (grid_after r) = length s"
  have "?P bound body j s r"
  proof (rule for_below.raw_induct [where P = ?P, OF _ assms(1)])
    fix rec :: "number \<Rightarrow> (nat \<Rightarrow> grid \<Rightarrow> outcome) \<Rightarrow> nat \<Rightarrow> grid \<Rightarrow> outcome option"
    fix bound body j s r
    assume IH: "\<And>bound body j s r. rec bound body j s = Some r \<Longrightarrow> ?P bound body j s r"
      and eq: "(if Fin (real j) < bound
                then case body j s of Inl e \<Rightarrow> Some (Inl e) | Inr s' \<Rightarrow> rec bound body (Suc j) s'
                else Some (Inr s)) = Some r"
    show "?P bound body j s r"
    proof
      assume len: "\<forall>j s. length (grid_after (body j s)) = length s"
      show "length (grid_after r) = length s"
      proof (cases "Fin (real j) < bound")
        case False
        with eq show ?thesis by auto
      next
        case True
        show ?thesis
        proof (cases "body j s")
          case (Inl x)
          with True eq len [rule_format, of j s] show ?thesis by auto
        next
          case (Inr s')
          with True eq have "rec bound body (Suc j) s' = Some r" by simp
          from IH [OF this] len have "length (grid_after r) = length s'" by blast
          with Inr len [rule_format, of j s] show ?thesis by simp
        qed
      qed
    qed
  qed
  with assms(2) show ?thesis by blast
qed

lemma for_each_opt_length:
  assumes "for_each_opt is body s = Some r"
    and "\<And>i s r. body i s = Some r \<Longrightarrow> length (grid_after r) = length s"
  shows "length (grid_after r) = length s"
  using assms(1)
proof (induction "is" arbitrary: s)
  case Nil
  then show ?case by auto
next
  case (Cons i "is")
  show ?case
  proof (cases "body i s")
    case None
    with Cons.prems show ?thesis by simp
  next
    case (Some x)
    show ?thesis
    proof (cases x)
      case (Inl y)
      with Some Cons.prems assms(2) [of i s x] show ?thesis by auto
    next
      case (Inr s')
      with Some Cons.prems have "for_each_opt is body s' = Some r" by simp
      from Cons.IH [OF this] assms(2) [OF Some] Inr show ?thesis by simp
    qed
  qed
qed

lemma Edges_row_step_length:
  "length (grid_after (Edges_row_step options direction distance e edges i j g)) = length g"
  unfolding Edges_row_step_def Let_def
  by (intro and_then_length) (simp_all add: update_cell_length)

lemma Edges_column_step_length:
  "length (grid_after (Edges_column_step options direction distance e edges i j g)) = length g"
  unfolding Edges_column_step_def Let_def
  by (intro and_then_length) (simp_all add: update_cell_length)

lemma Edges_shape_length:
  assumes "Edges_shape EaseInOut g options direction distance easing_arg edges_arg = Some r"
  shows "length (grid_after r) = length g"
proof -
  let ?e = "case easing_arg of None \<Rightarrow> EaseInOut | Some f \<Rightarrow> f"
  let ?rows = "for_each_opt [0..<widthSegments options + 1]
      (\<lambda>i. for_below (numSegments distance (height options) (heightSegments options))
             (Edges_row_step options direction distance ?e (resolved_edges edges_arg) i) 0) g"
  have rows: "length (grid_after x) = length g" if "?rows = Some x" for x
    using that by (rule for_each_opt_length) (rule for_below_length, assumption, rule Edges_row_step_length)
  show ?thesis
  proof (cases ?rows)
    case None
    with assms show ?thesis by (simp add: Edges_shape_def Let_def)
  next
    case (Some x)
    show ?thesis
    proof (cases x)
      case (Inl y)
      with Some assms rows [OF Some] show ?thesis by (simp add: Edges_shape_def Let_def)
    next
      case (Inr g1)
      with Some assms have "for_each_opt [0..<heightSegments options + 1]
          (\<lambda>i. for_below (numSegments distance (width options) (widthSegments options))
             (Edges_column_step options direction distance ?e (resolved_edges edges_arg) i) 0) g1 = Some r"
        by (simp add: Edges_shape_def Let_def)
      then have "length (grid_after r) = length g1"
        by (rule for_each_opt_length) (rule for_below_length, assumption, rule Edges_column_step_length)
      with rows [OF Some] Inr show ?thesis by simp
    qed
  qed
qed

lemma applyTerrainClamp_length: "length (grid_after (applyTerrainClamp g options)) = length g"
  by (simp add: applyTerrainClamp_def Let_def split: prod.split)

lemma Edges_length:
  assumes "Edges EaseInOut g options direction distance easing_arg edges_arg = Some r"
  shows "length (grid_after r) = length g"
proof (cases "Edges_shape EaseInOut g options direction distance easing_arg edges_arg")
  case None
  with assms show ?thesis by (simp add: Edges_def)
next
  case (Some x)
  show ?thesis
  proof (cases x)
    case (Inl y)
    with Some assms Edges_shape_length [OF Some] show ?thesis by (simp add: Edges_def)
  next
    case (Inr g1)
    with Some assms Edges_shape_length [OF Some] applyTerrainClamp_length [of g1] show ?thesis
      by (auto simp: Edges_def)
  qed
qed

lemma RadialEdges_step_length:
  "length (grid_after (RadialEdges_step options direction distance e i j g)) = length g"
  unfolding RadialEdges_step_def Let_def
  by (auto intro!: and_then_length simp: update_cell_length)

lemma RadialEdges_length:
  "length (grid_after (RadialEdges g options direction distance e)) = length g"
  unfolding RadialEdges_def Let_def
  by (intro for_each_length RadialEdges_step_length)

lemma commit_length: "length (grid_after (commit g f r)) = length g"
  by (simp add: commit_def split: sum.split)

lemma applyTerrainStep_length: "length (grid_after (applyTerrainStep g levels_arg)) = length g"
  by (simp add: applyTerrainStep_def split: option.split)

subsection \<open>Edges returns when its bounds are finite\<close>

lemma below_ceiling: "j < nat \<lceil>r\<rceil> \<longleftrightarrow> real j < r"
  by (simp add: zless_nat_eq_int_zless less_ceiling_iff)

lemma for_below_real:
  "for_below (Fin r) body j s = Some (for_each [j..<nat \<lceil>r\<rceil>] body s)"
proof (induction "nat \<lceil>r\<rceil> - j" arbitrary: j s)
  case 0
  then have "\<not> j < nat \<lceil>r\<rceil>" by linarith
  then have "\<not> real j < r" using below_ceiling [of j r] by blast
  with 0 show ?case by (subst for_below.simps) simp
next
  case (Suc d)
  then have j: "j < nat \<lceil>r\<rceil>" and d: "d = nat \<lceil>r\<rceil> - Suc j" by simp_all
  from j have lt: "real j < r" using below_ceiling [of j r] by blast
  show ?case
  proof (cases "body j s")
    case (Inl x)
    then show ?thesis using j lt by (subst for_below.simps) (simp add: upt_conv_Cons)
  next
    case (Inr s')
    then show ?thesis using j lt Suc.hyps(1) [OF d, of s']
      by (subst for_below.simps) (simp add: upt_conv_Cons)
  qed
qed

lemma for_below_finite:
  "for_below (Fin (real n)) body j s = Some (for_each [j..<n] body s)"
  using for_below_real [of "real n" body j s] by simp

lemma for_below_returns:
  assumes "bound \<noteq> PInf"
  shows "\<exists>r. for_below bound body j s = Some r"
proof (cases bound)
  case (Fin r)
  then show ?thesis by (simp add: for_below_real)
next
  case PInf
  with assms show ?thesis by simp
next
  case NInf
  then show ?thesis by (subst for_below.simps) simp
next
  case NaN
  then show ?thesis by (subst for_below.simps) simp
qed

lemma for_each_opt_returns:
  assumes "\<And>i s. \<exists>r. body i s = Some r"
  shows "\<exists>r. for_each_opt is body s = Some r"
proof (induction "is" arbitrary: s)
  case Nil
  then show ?case by simp
next
  case (Cons i "is")
  from assms [of i s] obtain r where r: "body i s = Some r" by blast
  show ?case
  proof (cases r)
    case (Inl x)
    with r show ?thesis by simp
  next
    case (Inr s')
    with r Cons.IH [of s'] show ?thesis by simp
  qed
qed

lemma Edges_returns:
  assumes "numSegments distance (width options) (widthSegments options) \<noteq> PInf"
    and "numSegments distance (height options) (heightSegments options) \<noteq> PInf"
  shows "\<exists>r. Edges EaseInOut g options direction distance easing_arg edges_arg = Some r"
proof -
  let ?e = "case easing_arg of None \<Rightarrow> EaseInOut | Some f \<Rightarrow> f"
  let ?rows = "\<lambda>i. for_below (numSegments distance (height options) (heightSegments options))
             (Edges_row_step options direction distance ?e (resolved_edges edges_arg) i) 0"
  let ?cols = "\<lambda>i. for_below (numSegments distance (width options) (widthSegments options))
             (Edges_column_step options direction distance ?e (resolved_edges edges_arg) i) 0"
  have rows: "\<exists>r. ?rows i s = Some r" for i s
    by (rule for_below_returns [OF assms(2)])
  have cols: "\<exists>r. ?cols i s = Some r" for i s
    by (rule for_below_returns [OF assms(1)])
  obtain r1 where r1: "for_each_opt [0..<widthSegments options + 1] ?rows g = Some r1"
    using for_each_opt_returns [of ?rows, OF rows] by blast
  have "\<exists>r. Edges_shape EaseInOut g options direction distance easing_arg edges_arg = Some r"
  proof (cases r1)
    case (Inl x)
    with r1 show ?thesis by (simp add: Edges_shape_def Let_def del: upt_Suc)
  next
    case (Inr g1)
    obtain r2 where "for_each_opt [0..<heightSegments options + 1] ?cols g1 = Some r2"
      using for_each_opt_returns [of ?cols, OF cols] by blast
    with r1 Inr show ?thesis by (simp add: Edges_shape_def Let_def del: upt_Suc)
  qed
  then obtain r where r: "Edges_shape EaseInOut g options direction distance easing_arg edges_arg = Some r"
    by blast
  show ?thesis by (cases r) (simp_all add: Edges_def r)
qed

text \<open>
  C9. Every filter leaves the length of the grid as it was, for every grid and all
  arguments, also when the call throws (the grid then holds the writes made before the
  throw). Edges is the one filter that may not return (a bound \<^verbatim>\<open>Infinity\<close> with no edge
  selected); whenever it returns or throws, the length is kept, and it does return or
  throw when neither \<^verbatim>\<open>numXSegments\<close> nor \<^verbatim>\<open>numYSegments\<close> is \<^verbatim>\<open>Infinity\<close>.
\<close>

theorem filters_keep_length:
  "length (grid_after (applyTerrainClamp g clamp_options)) = length g
   \<and> (\<forall>r. Edges EaseInOut g options direction distance easing_arg edges_arg = Some r
          \<longrightarrow> length (grid_after r) = length g)
   \<and> (numSegments distance (width options) (widthSegments options) \<noteq> PInf
        \<and> numSegments distance (height options) (heightSegments options) \<noteq> PInf
        \<longrightarrow> (\<exists>r. Edges EaseInOut g options direction distance easing_arg edges_arg = Some r))
   \<and> length (grid_after (RadialEdges g options direction distance e)) = length g
   \<and> length (grid_after (applyTerrainSmooth g options weight)) = length g
   \<and> length (grid_after (SmoothMedian g options)) = length g
   \<and> length (grid_after (SmoothConservative g options multiplier)) = length g
   \<and> length (grid_after (applyTerrainStep g levels_arg)) = length g
   \<and> length (grid_after (applyTurbulenceTurbulence g options)) = length g"
  using Edges_length [of EaseInOut g options direction distance easing_arg edges_arg]
    Edges_returns [of distance options EaseInOut g direction easing_arg edges_arg]
  by (simp add: applyTerrainClamp_length RadialEdges_length applyTerrainStep_length commit_length
      applyTerrainSmooth_def SmoothMedian_def SmoothConservative_def Let_def
      applyTurbulenceTurbulence_def)

theorem filters_keep_length_witness:
  "Edges Linear [Fin 1, Fin 2, Fin 3, Fin 4, Fin 5, Fin 6, Fin 7, Fin 8, Fin 9]
      \<lparr>maxHeight = Some (Fin 10), minHeight = Some (Fin 0), easing = None, stretch = False,
       width = Fin 2, height = Fin 2, widthSegments = 2, heightSegments = 2\<rparr>
      True (Fin 1) None None
     = Some (Inr [Fin 10, Fin 10, Fin 10, Fin 10, Fin 0, Fin 10, Fin 10, Fin 10, Fin 10])
   \<and> length (grid_after (Inr [Fin 10, Fin 10, Fin 10, Fin 10, Fin 0, Fin 10, Fin 10, Fin 10, Fin 10]))
     = length [Fin 1, Fin 2, Fin 3, Fin 4, Fin 5, Fin 6, Fin 7, Fin 8, Fin 9]"
proof -
  let ?g = "[Fin 1, Fin 2, Fin 3, Fin 4, Fin 5, Fin 6, Fin 7, Fin 8, Fin 9]"
  let ?o = "\<lparr>maxHeight = Some (Fin 10), minHeight = Some (Fin 0), easing = None, stretch = False,
       width = Fin 2, height = Fin 2, widthSegments = 2, heightSegments = 2\<rparr>"
  have ev: "Edges Linear ?g ?o True (Fin 1) None None
     = Some (Inr [Fin 10, Fin 10, Fin 10, Fin 10, Fin 0, Fin 10, Fin 10, Fin 10, Fin 10])"
    by code_simp
  from filters_keep_length [where g = ?g and EaseInOut = Linear and options = ?o and direction = True
      and distance = "Fin 1" and easing_arg = None and edges_arg = None]
  have "\<forall>r. Edges Linear ?g ?o True (Fin 1) None None = Some r \<longrightarrow> length (grid_after r) = length ?g"
    by blast
  with ev show ?thesis by blast
qed

section \<open>Loops over the cells\<close>

lemma for_each_append:
  "for_each (xs @ ys) body s = (case for_each xs body s of Inl e \<Rightarrow> Inl e | Inr s' \<Rightarrow> for_each ys body s')"
  by (induction xs arbitrary: s) (auto split: sum.split)

lemma for_each_upt_inv:
  assumes "I 0 s"
    and "\<And>k s. k < n \<Longrightarrow> I k s \<Longrightarrow> \<exists>s'. body k s = Inr s' \<and> I (Suc k) s'"
  shows "\<exists>s'. for_each [0..<n] body s = Inr s' \<and> I n s'"
  using assms(2)
proof (induction n)
  case 0
  then show ?case using assms(1) by simp
next
  case (Suc n)
  then obtain s1 where s1: "for_each [0..<n] body s = Inr s1" "I n s1"
    by (metis less_Suc_eq)
  from Suc.prems [of n s1] s1(2) obtain s2 where s2: "body n s1 = Inr s2" "I (Suc n) s2" by auto
  show ?case using s1(1) s2 by (simp add: for_each_append)
qed

lemma cell_index_less:
  fixes i j xl yl :: nat
  assumes "i < xl" "j < yl"
  shows "j * xl + i < xl * yl"
proof -
  have "j * xl + i < j * xl + xl" using assms(1) by simp
  also have "\<dots> = (Suc j) * xl" by simp
  also have "\<dots> \<le> yl * xl" using assms(2) by (intro mult_le_mono1) simp
  finally show ?thesis by (simp add: mult.commute)
qed

lemma cell_index_inj:
  fixes i j i' j' xl :: nat
  assumes "i < xl" "i' < xl" "j * xl + i = j' * xl + i'"
  shows "i = i' \<and> j = j'"
proof -
  have "(j * xl + i) mod xl = i" "(j' * xl + i') mod xl = i'" using assms(1,2) by simp_all
  then have i: "i = i'" using assms(3) by simp
  have "0 < xl" using assms(1) by simp
  then show ?thesis using i assms(3) by simp
qed


section \<open>The conservative clamp\<close>






lemma elem_int: "elem xs (int k) = (if k < length xs then Some (xs ! k) else None)"
  by (simp add: elem_def)






section \<open>RadialEdges: the centre row\<close>

lemma update_cell_nat: "k < length g \<Longrightarrow> update_cell f (int k) g = Inr (g[k := f (g ! k)])"
  by (simp add: update_cell_def elem_int)

lemma top_key: "int j * int xl + int i = int (j * xl + i)"
  by simp

lemma bottom_key: "j \<le> hs \<Longrightarrow> (int hs - int j) * int xl + int i = int ((hs - j) * xl + i)"
  by (simp add: of_nat_diff)

lemma RadialEdges_step_valid:
  assumes "length g = (widthSegments options + 1) * (heightSegments options + 1)"
    and "i < widthSegments options + 1" and "j \<le> heightSegments options"
    and "k1 = j * (widthSegments options + 1) + i"
    and "k2 = (heightSegments options - j) * (widthSegments options + 1) + i"
  shows "RadialEdges_step options direction distance e i j g
     = Inr (if vertexDistance options distance i j < Fin 0 then g
            else (g[k1 := radial_push options direction distance e i j (g ! k1)])
                   [k2 := radial_push options direction distance e i j
                            ((g[k1 := radial_push options direction distance e i j (g ! k1)]) ! k2)])"
proof -
  have 1: "k1 < length g"
    unfolding assms(1,4) using assms(2,3) by (intro cell_index_less) simp_all
  have 2: "k2 < length g"
    unfolding assms(1,5) using assms(2,3) by (intro cell_index_less) simp_all
  have k1: "int j * int (widthSegments options + 1) + int i = int k1"
    unfolding assms(4) by (rule top_key)
  have k2: "(int (heightSegments options) - int j) * int (widthSegments options + 1) + int i = int k2"
    unfolding assms(5) using assms(3) by (rule bottom_key)
  show ?thesis
    unfolding RadialEdges_step_def Let_def k1 k2 radial_push_def
    using 1 2 by (simp add: update_cell_nat and_then_def)
qed

lemma half_rows_odd: "nat \<lceil>real (2 * c + 1) * 0.5\<rceil> = c + 1"
proof -
  have "\<lceil>real (2 * c + 1) * 0.5\<rceil> = int c + 1"
    by (rule ceiling_unique) simp_all
  then show ?thesis by simp
qed

lemma RadialEdges_column_other:
  assumes len: "length g1 = (widthSegments options + 1) * (heightSegments options + 1)"
    and i: "i < widthSegments options + 1" and i0: "i0 < widthSegments options + 1"
    and n: "n \<le> heightSegments options + 1" and ne: "i \<noteq> i0"
  shows "\<exists>g2. for_each [0..<n] (RadialEdges_step options direction distance e i) g1 = Inr g2
      \<and> length g2 = length g1 \<and> g2 ! (r * (widthSegments options + 1) + i0) = g1 ! (r * (widthSegments options + 1) + i0)"
proof -
  let ?xl = "widthSegments options + 1"
  let ?hs = "heightSegments options"
  let ?K = "r * ?xl + i0"
  let ?I = "\<lambda>(j :: nat) g'. length g' = length g1 \<and> g' ! ?K = g1 ! ?K"
  show ?thesis
  proof (rule for_each_upt_inv [where I = ?I])
    show "?I 0 g1" by simp
  next
    fix j g' assume j: "j < n" and inv: "?I j g'"
    have jh: "j \<le> ?hs" using j n by simp
    have k1: "?K \<noteq> j * ?xl + i" using cell_index_inj [of i0 ?xl i r j] i i0 ne by auto
    have k2: "?K \<noteq> (?hs - j) * ?xl + i" using cell_index_inj [of i0 ?xl i r "?hs - j"] i i0 ne by auto
    have lg: "length g' = (widthSegments options + 1) * (heightSegments options + 1)" using inv len by simp
    show "\<exists>s'. RadialEdges_step options direction distance e i j g' = Inr s' \<and> ?I (Suc j) s'"
      unfolding RadialEdges_step_valid [OF lg i jh refl refl]
      using inv k1 k2 by simp
  qed
qed

lemma RadialEdges_column_centre:
  assumes len: "length g1 = (widthSegments options + 1) * (heightSegments options + 1)"
    and i0: "i0 < widthSegments options + 1"
    and hs: "heightSegments options = 2 * c"
    and f: "f = radial_push options direction distance e i0 c"
  shows "\<exists>g2. for_each [0..<c + 1] (RadialEdges_step options direction distance e i0) g1 = Inr g2
      \<and> length g2 = length g1
      \<and> g2 ! (c * (widthSegments options + 1) + i0)
          = (if vertexDistance options distance i0 c < Fin 0 then g1 ! (c * (widthSegments options + 1) + i0)
             else f (f (g1 ! (c * (widthSegments options + 1) + i0))))"
proof -
  let ?xl = "widthSegments options + 1"
  let ?hs = "heightSegments options"
  let ?K = "c * ?xl + i0"
  let ?W = "if vertexDistance options distance i0 c < Fin 0 then g1 ! ?K else f (f (g1 ! ?K))"
  let ?I = "\<lambda>(j :: nat) g'. length g' = length g1 \<and> g' ! ?K = (if j \<le> c then g1 ! ?K else ?W)"
  have K: "?K < length g1" unfolding len using i0 hs by (intro cell_index_less) simp_all
  have "\<exists>g2. for_each [0..<c + 1] (RadialEdges_step options direction distance e i0) g1 = Inr g2 \<and> ?I (c + 1) g2"
  proof (rule for_each_upt_inv [where I = ?I])
    show "?I 0 g1" by simp
  next
    fix j g' assume j: "j < c + 1" and inv: "?I j g'"
    have jh: "j \<le> ?hs" using j hs by simp
    have lg: "length g' = (widthSegments options + 1) * (heightSegments options + 1)" using inv len by simp
    show "\<exists>s'. RadialEdges_step options direction distance e i0 j g' = Inr s' \<and> ?I (Suc j) s'"
    proof (cases "j = c")
      case True
      have b: "(?hs - c) * ?xl + i0 = ?K" using hs by simp
      have ch: "c \<le> ?hs" using hs by simp
      have st: "RadialEdges_step options direction distance e i0 c g'
          = Inr (if vertexDistance options distance i0 c < Fin 0 then g'
                 else (g'[?K := f (g' ! ?K)])[?K := f ((g'[?K := f (g' ! ?K)]) ! ?K)])"
        using RadialEdges_step_valid [OF lg i0 ch refl refl] unfolding b f .
      have Kg: "?K < length g'" using K inv by simp
      show ?thesis
        unfolding True st using inv Kg True by simp
    next
      case False
      then have jc: "j < c" using j by simp
      have k1: "?K \<noteq> j * ?xl + i0" using cell_index_inj [of i0 ?xl i0 c j] i0 jc by auto
      have "?hs - j \<noteq> c" using hs jc by simp
      then have k2: "?K \<noteq> (?hs - j) * ?xl + i0" using cell_index_inj [of i0 ?xl i0 c "?hs - j"] i0 by auto
      show ?thesis
        unfolding RadialEdges_step_valid [OF lg i0 jh refl refl]
        using inv k1 k2 jc by simp
    qed
  qed
  then show ?thesis by auto
qed

lemma Math_max_Fin [simp]: "Math_max (Fin a) (Fin b) = Fin (max a b)"
  by (simp add: Math_max_def max_def)

lemma Math_min_Fin [simp]: "Math_min (Fin a) (Fin b) = Fin (min a b)"
  by (simp add: Math_min_def min_def)

lemma push_Fin:
  "push direction (Fin p) (Fin m) (Fin z) = Fin ((if direction then max else min) z ((p - z) * m + z))"
  by (simp add: push_def)

lemma push_twice_closer:
  assumes "0 < m" "m < 1" "if direction then z < p else p < z"
  shows "\<exists>z1 z2. push direction (Fin p) (Fin m) (Fin z) = Fin z1
      \<and> push direction (Fin p) (Fin m) (Fin z1) = Fin z2
      \<and> (if direction then z1 < z2 \<and> z2 < p else p < z2 \<and> z2 < z1)"
proof (cases direction)
  case True
  then have zp: "z < p" using assms(3) by simp
  define z1 where "z1 = (p - z) * m + z"
  define z2 where "z2 = (p - z1) * m + z1"
  have a: "0 < (p - z) * m" "(p - z) * m < p - z" using zp assms(1,2) by simp_all
  then have z1: "z < z1" "z1 < p" by (simp_all add: z1_def)
  then have b: "0 < (p - z1) * m" "(p - z1) * m < p - z1" using assms(1,2) by simp_all
  then have z2: "z1 < z2" "z2 < p" by (simp_all add: z2_def)
  have "push direction (Fin p) (Fin m) (Fin z) = Fin z1"
    using True z1(1) by (simp add: push_Fin z1_def max_def)
  moreover have "push direction (Fin p) (Fin m) (Fin z1) = Fin z2"
    using True z2(1) by (simp add: push_Fin z2_def max_def)
  ultimately show ?thesis using True z2 by auto
next
  case False
  then have zp: "p < z" using assms(3) by simp
  define z1 where "z1 = (p - z) * m + z"
  define z2 where "z2 = (p - z1) * m + z1"
  have a: "(p - z) * m < 0" "p - z < (p - z) * m" using zp assms(1,2) by (simp_all add: mult_less_0_iff)
  then have z1: "z1 < z" "p < z1" by (simp_all add: z1_def)
  then have b: "(p - z1) * m < 0" "p - z1 < (p - z1) * m" using assms(1,2) by (simp_all add: mult_less_0_iff)
  then have z2: "z2 < z1" "p < z2" by (simp_all add: z2_def)
  have "push direction (Fin p) (Fin m) (Fin z) = Fin z1"
    using False z1(1) by (simp add: push_Fin z1_def min_def)
  moreover have "push direction (Fin p) (Fin m) (Fin z1) = Fin z2"
    using False z2(1) by (simp add: push_Fin z2_def min_def)
  ultimately show ?thesis using False z2 by auto
qed

lemma RadialEdges_centre_cell:
  assumes hs: "heightSegments options = 2 * c"
    and len: "length g = (widthSegments options + 1) * (heightSegments options + 1)"
    and i0: "i0 < widthSegments options + 1"
  shows "\<exists>g'. RadialEdges g options direction distance e = Inr g' \<and> length g' = length g
      \<and> g' ! (c * (widthSegments options + 1) + i0)
          = (if vertexDistance options distance i0 c < Fin 0 then g ! (c * (widthSegments options + 1) + i0)
             else radial_push options direction distance e i0 c
                    (radial_push options direction distance e i0 c (g ! (c * (widthSegments options + 1) + i0))))"
proof -
  let ?xl = "widthSegments options + 1"
  let ?K = "c * ?xl + i0"
  let ?f = "radial_push options direction distance e i0 c"
  let ?W = "\<lambda>v. if vertexDistance options distance i0 c < Fin 0 then v else ?f (?f v)"
  let ?body = "\<lambda>i. for_each [0..<c + 1] (RadialEdges_step options direction distance e i)"
  let ?I = "\<lambda>i g'. length g' = length g \<and> g' ! ?K = (if i \<le> i0 then g ! ?K else ?W (g ! ?K))"
  have n: "c + 1 \<le> heightSegments options + 1" using hs by simp
  have "\<exists>g'. for_each [0..<?xl] ?body g = Inr g' \<and> ?I ?xl g'"
  proof (rule for_each_upt_inv [where I = ?I])
    show "?I 0 g" by simp
  next
    fix i g1 assume i: "i < ?xl" and inv: "?I i g1"
    have lg: "length g1 = (widthSegments options + 1) * (heightSegments options + 1)" using inv len by simp
    show "\<exists>s'. ?body i g1 = Inr s' \<and> ?I (Suc i) s'"
    proof (cases "i = i0")
      case True
      from RadialEdges_column_centre [OF lg i0 hs refl, of direction distance e]
      show ?thesis using inv True by auto
    next
      case False
      from RadialEdges_column_other [OF lg i i0 n False, of direction distance e c]
      show ?thesis using inv False by auto
    qed
  qed
  then obtain g' where g': "for_each [0..<?xl] ?body g = Inr g'" "?I ?xl g'" by blast
  have "RadialEdges g options direction distance e = Inr g'"
    using g'(1) by (simp add: RadialEdges_def Let_def hs half_rows_odd [of c, simplified] del: upt_Suc)
  then show ?thesis using g'(2) i0 by auto
qed

text \<open>
  C10. With an even \<^verbatim>\<open>heightSegments = 2c\<close> and a grid of length \<open>columns * rows\<close>,
  RadialEdges returns, and the cell of the centre row \<open>c\<close> in column \<open>i\<close> is left as it is
  when the step is skipped (\<^verbatim>\<open>vertexDistance < 0\<close>) and otherwise holds the push applied
  twice, the second time to the result of the first, with the one multiplier of that
  step: the loop reaches \<open>j = c\<close>, whose mirrored row \<open>heightSegments - j\<close> is \<open>c\<close> again, and no
  other step writes the cell. For a multiplier strictly between 0 and 1 and an elevation
  on the near side of the peak, the second push lands strictly between the first and the
  peak.
\<close>

theorem RadialEdges_centre_row_twice:
  assumes "heightSegments options = 2 * c"
    and "length g = (widthSegments options + 1) * (heightSegments options + 1)"
    and "i < widthSegments options + 1"
  shows "(\<exists>g'. RadialEdges g options direction distance e = Inr g' \<and> length g' = length g
      \<and> g' ! (c * (widthSegments options + 1) + i)
          = (if vertexDistance options distance i c < Fin 0 then g ! (c * (widthSegments options + 1) + i)
             else radial_push options direction distance e i c
                    (radial_push options direction distance e i c (g ! (c * (widthSegments options + 1) + i)))))
    \<and> (\<forall>p m z. 0 < m \<and> m < 1 \<and> (if direction then z < p else p < z) \<longrightarrow>
          (\<exists>z1 z2. push direction (Fin p) (Fin m) (Fin z) = Fin z1
             \<and> push direction (Fin p) (Fin m) (Fin z1) = Fin z2
             \<and> (if direction then z1 < z2 \<and> z2 < p else p < z2 \<and> z2 < z1)))"
  using RadialEdges_centre_cell [OF assms] push_twice_closer by blast

theorem RadialEdges_centre_row_twice_witness:
  "\<exists>g'. RadialEdges (replicate 9 (Fin 4))
           \<lparr>maxHeight = Some (Fin 10), minHeight = Some (Fin 0), easing = None, stretch = False,
            width = Fin 12, height = Fin 16, widthSegments = 2, heightSegments = 2\<rparr>
           True (Fin 0) Linear = Inr g'
      \<and> length g' = 9 \<and> g' ! 4 = Fin (59 / 6)"
proof -
  let ?o = "\<lparr>maxHeight = Some (Fin 10), minHeight = Some (Fin 0), easing = None, stretch = False,
            width = Fin 12, height = Fin 16, widthSegments = 2, heightSegments = 2\<rparr>"
  have s: "sqrt 25 = 5" by (rule real_sqrt_unique) simp_all
  have vd: "vertexDistance ?o (Fin 0) 1 1 = Fin 5"
    by (simp add: vertexDistance_def edgeRadius_def s)
  have f: "radial_push ?o True (Fin 0) Linear 1 1 (Fin z) = Fin (max z ((10 - z) * (5 / 6) + z))" for z
    by (simp add: radial_push_def vd [unfolded One_nat_def] edgeRadius_def Linear_def push_Fin)
  from RadialEdges_centre_row_twice [of ?o 1 "replicate 9 (Fin 4)" 1 True "Fin 0" Linear]
  obtain g' where g': "RadialEdges (replicate 9 (Fin 4)) ?o True (Fin 0) Linear = Inr g'"
    "length g' = 9"
    "g' ! 4 = radial_push ?o True (Fin 0) Linear 1 1 (radial_push ?o True (Fin 0) Linear 1 1 (replicate 9 (Fin 4) ! 4))"
    by (auto simp: vd [unfolded One_nat_def])
  have "g' ! 4 = Fin (59 / 6)" unfolding g'(3) by (simp add: f [unfolded One_nat_def])
  with g'(1,2) show ?thesis by blast
qed

section \<open>Edge shaping pushes towards the peak\<close>

lemma pushed_refl: "pushed direction (map Fin zs) (map Fin zs)"
  by (simp add: pushed_def)

lemma pushed_update:
  assumes "pushed direction g g1" "k < length g"
  shows "pushed direction g (g1[k := push direction (Fin p) (Fin m) (g1 ! k)])"
proof -
  have len: "length g1 = length g" using assms(1) by (simp add: pushed_def)
  have "\<exists>a b. g ! k' = Fin a \<and> g1[k := push direction (Fin p) (Fin m) (g1 ! k)] ! k' = Fin b
      \<and> (if direction then a \<le> b else b \<le> a)" if k': "k' < length g" for k'
  proof -
    from assms(1) k' obtain a b where ab: "g ! k' = Fin a" "g1 ! k' = Fin b" "if direction then a \<le> b else b \<le> a"
      unfolding pushed_def by blast
    show ?thesis
    proof (cases "k' = k")
      case True
      have "g1[k := push direction (Fin p) (Fin m) (g1 ! k)] ! k'
          = Fin ((if direction then max else min) b ((p - b) * m + b))"
        using True assms(2) len ab(2) by (simp add: push_Fin)
      moreover have "if direction then a \<le> (if direction then max else min) b ((p - b) * m + b)
          else (if direction then max else min) b ((p - b) * m + b) \<le> a"
        using ab(3) by (auto simp: max_def min_def)
      ultimately show ?thesis using ab(1) by blast
    next
      case False
      then show ?thesis using ab by auto
    qed
  qed
  then show ?thesis using len by (simp add: pushed_def)
qed

lemma square_sum_nonneg:
  fixes a x b y :: real
  shows "0 \<le> a * x * a * x + b * y * b * y"
proof -
  have "a * x * a * x = (a * x) * (a * x)" "b * y * b * y = (b * y) * (b * y)" by simp_all
  then show ?thesis by (metis add_nonneg_nonneg zero_le_square)
qed

lemma vertexDistance_Fin:
  assumes "width options = Fin w" "height options = Fin h"
    and "0 < widthSegments options" "0 < heightSegments options"
  shows "\<exists>v. vertexDistance options (Fin d) i j = Fin v \<and> v \<le> min w h * 0.5 - d"
proof -
  let ?a = "real (widthSegments options + 1) * 0.5 - real i"
  let ?x = "w / real (widthSegments options)"
  let ?b = "real (heightSegments options + 1) * 0.5 - real j"
  let ?y = "h / real (heightSegments options)"
  have nn: "\<not> ?a * ?x * ?a * ?x + ?b * ?y * ?b * ?y < 0"
    using square_sum_nonneg [of ?a ?x ?b ?y] by simp
  have "vertexDistance options (Fin d) i j
      = Fin (min (min w h * 0.5 - d) (sqrt (?a * ?x * ?a * ?x + ?b * ?y * ?b * ?y) - d))"
    unfolding vertexDistance_def edgeRadius_def Let_def assms(1,2)
    using assms(3,4) nn by (simp del: of_nat_add of_nat_Suc)
  then show ?thesis by simp
qed

lemma radial_push_finite:
  assumes "radial_setting options distance e"
    and "(if direction then maxHeight options else minHeight options) = Some (Fin p)"
    and "\<not> vertexDistance options distance i j < Fin 0"
  shows "\<exists>m. radial_push options direction distance e i j = push direction (Fin p) (Fin m)"
proof -
  from assms(1) obtain w h d where s: "width options = Fin w" "height options = Fin h" "distance = Fin d"
    "0 < widthSegments options" "0 < heightSegments options" "d < min w h * 0.5" "eases_unit e"
    unfolding radial_setting_def by blast
  from vertexDistance_Fin [OF s(1,2,4,5), of d i j]
  obtain v where v: "vertexDistance options (Fin d) i j = Fin v" "v \<le> min w h * 0.5 - d" by blast
  have v0: "0 \<le> v" using assms(3) v(1) s(3) by simp
  have R: "edgeRadius options (Fin d) = Fin (min w h * 0.5 - d)"
    by (simp add: edgeRadius_def s(1,2))
  have "0 \<le> v / (min w h * 0.5 - d) \<and> v / (min w h * 0.5 - d) \<le> 1"
    using v0 v(2) s(6) by simp
  with s(7) obtain u where "e (Fin (v / (min w h * 0.5 - d))) = Fin u"
    unfolding eases_unit_def by blast
  moreover have "min w h * 0.5 - d \<noteq> 0" using s(6) by linarith
  then have "vertexDistance options distance i j / edgeRadius options distance
      = Fin (v / (min w h * 0.5 - d))"
    unfolding s(3) v(1) R by (rule Fin_divide)
  ultimately have "e (vertexDistance options distance i j / edgeRadius options distance) = Fin u"
    by simp
  then have "radial_push options direction distance e i j = push direction (Fin p) (Fin u)"
    using assms(2) by (simp add: radial_push_def)
  then show ?thesis by blast
qed

lemma half_rows_le: "j < nat \<lceil>real (hs + 1) * 0.5\<rceil> \<Longrightarrow> j \<le> hs"
proof -
  assume a: "j < nat \<lceil>real (hs + 1) * 0.5\<rceil>"
  have "\<lceil>real (hs + 1) * 0.5\<rceil> \<le> int (hs + 1)" by (simp add: ceiling_le_iff)
  then show ?thesis using a by linarith
qed

lemma RadialEdges_pushed:
  assumes "radial_setting options distance e"
    and "(if direction then maxHeight options else minHeight options) = Some (Fin p)"
    and len: "length zs = (widthSegments options + 1) * (heightSegments options + 1)"
  shows "\<exists>g'. RadialEdges (map Fin zs) options direction distance e = Inr g'
      \<and> pushed direction (map Fin zs) g'"
proof -
  let ?g = "map Fin zs"
  let ?xl = "widthSegments options + 1"
  let ?hs = "heightSegments options"
  let ?ny = "nat \<lceil>real (?hs + 1) * 0.5\<rceil>"
  have step: "\<exists>s'. RadialEdges_step options direction distance e i j g1 = Inr s' \<and> pushed direction ?g s'"
    if i: "i < ?xl" and j: "j < ?ny" and inv: "pushed direction ?g g1" for i j g1
  proof -
    have jh: "j \<le> ?hs" using j by (rule half_rows_le)
    have lg: "length g1 = (widthSegments options + 1) * (heightSegments options + 1)"
      using inv len by (simp add: pushed_def)
    have k1: "j * ?xl + i < length ?g" using cell_index_less [OF i, of j "?hs + 1"] jh len by simp
    have k2: "(?hs - j) * ?xl + i < length ?g" using cell_index_less [OF i, of "?hs - j" "?hs + 1"] len by simp
    show ?thesis
    proof (cases "vertexDistance options distance i j < Fin 0")
      case True
      then show ?thesis using inv by (simp add: RadialEdges_step_valid [OF lg i jh refl refl])
    next
      case False
      from radial_push_finite [OF assms(1,2) False]
      obtain m where m: "radial_push options direction distance e i j = push direction (Fin p) (Fin m)" by blast
      have "pushed direction ?g (g1[j * ?xl + i := push direction (Fin p) (Fin m) (g1 ! (j * ?xl + i))])"
        using inv k1 by (rule pushed_update)
      then have "pushed direction ?g
          ((g1[j * ?xl + i := push direction (Fin p) (Fin m) (g1 ! (j * ?xl + i))])
             [(?hs - j) * ?xl + i := push direction (Fin p) (Fin m)
                ((g1[j * ?xl + i := push direction (Fin p) (Fin m) (g1 ! (j * ?xl + i))]) ! ((?hs - j) * ?xl + i))])"
        using k2 by (rule pushed_update)
      then show ?thesis using False by (simp add: RadialEdges_step_valid [OF lg i jh refl refl] m)
    qed
  qed
  have inner: "\<exists>s'. for_each [0..<?ny] (RadialEdges_step options direction distance e i) g1 = Inr s'
      \<and> pushed direction ?g s'" if "i < ?xl" "pushed direction ?g g1" for i g1
    by (rule for_each_upt_inv [where I = "\<lambda>j. pushed direction ?g"]) (use that step in auto)
  have "\<exists>s'. for_each [0..<?xl] (\<lambda>i. for_each [0..<?ny] (RadialEdges_step options direction distance e i)) ?g = Inr s'
      \<and> pushed direction ?g s'"
    by (rule for_each_upt_inv [where I = "\<lambda>i. pushed direction ?g"]) (use inner pushed_refl in auto)
  then show ?thesis by (simp add: RadialEdges_def Let_def del: upt_Suc of_nat_add of_nat_Suc)
qed

lemma for_each_opt_Some:
  assumes "\<And>i s. body i s = Some (body' i s)"
  shows "for_each_opt is body s = Some (for_each is body' s)"
  by (induction "is" arbitrary: s) (auto simp: assms split: sum.split)

lemma edge_multiplier_finite:
  assumes "eases_unit e" "j < ny"
  shows "\<exists>m. e (Fin 1 - Fin (real j) / Fin (real ny)) = Fin m"
proof -
  have "0 \<le> 1 - real j / real ny \<and> 1 - real j / real ny \<le> 1" using assms(2) by simp
  with assms(1) obtain m where "e (Fin (1 - real j / real ny)) = Fin m"
    unfolding eases_unit_def by blast
  then show ?thesis using assms(2) by auto
qed

lemma pushed_update_cell:
  assumes "pushed direction g g1" "k < length g"
  shows "\<exists>g2. update_cell (push direction (Fin p) (Fin m)) (int k) g1 = Inr g2 \<and> pushed direction g g2"
proof -
  have "k < length g1" using assms by (simp add: pushed_def)
  then show ?thesis using pushed_update [OF assms] by (simp add: update_cell_nat)
qed

lemma pushed_two_updates:
  assumes "pushed direction g g1" "k1 < length g" "k2 < length g"
  shows "\<exists>g2. and_then (if t then update_cell (push direction (Fin p) (Fin m)) (int k1) g1 else Inr g1)
             (\<lambda>g. if b then update_cell (push direction (Fin p) (Fin m)) (int k2) g else Inr g) = Inr g2
      \<and> pushed direction g g2"
proof -
  obtain ga where ga: "(if t then update_cell (push direction (Fin p) (Fin m)) (int k1) g1 else Inr g1) = Inr ga"
    "pushed direction g ga"
    using pushed_update_cell [OF assms(1,2)] assms(1) by (cases t) auto
  obtain gb where gb: "(if b then update_cell (push direction (Fin p) (Fin m)) (int k2) ga else Inr ga) = Inr gb"
    "pushed direction g gb"
    using pushed_update_cell [OF ga(2) assms(3)] ga(2) by (cases b) auto
  show ?thesis using ga(1) gb by (simp add: and_then_def)
qed

lemma Edges_row_step_pushed:
  assumes "numSegments distance (height options) (heightSegments options) = Fin (real ny)"
    and "ny \<le> heightSegments options + 1" and "eases_unit e"
    and "(if direction then maxHeight options else minHeight options) = Some (Fin p)"
    and "length g = (widthSegments options + 1) * (heightSegments options + 1)"
    and "i < widthSegments options + 1" and "j < ny" and "pushed direction g g1"
  shows "\<exists>g2. Edges_row_step options direction distance e edges i j g1 = Inr g2 \<and> pushed direction g g2"
proof -
  let ?xl = "widthSegments options + 1"
  let ?hs = "heightSegments options"
  from edge_multiplier_finite [OF assms(3,7)]
  obtain m where m: "e (Fin 1 - Fin (real j) / Fin (real ny)) = Fin m" by blast
  have jh: "j \<le> ?hs" using assms(2,7) by simp
  have k1: "j * ?xl + i < length g" using cell_index_less [OF assms(6), of j "?hs + 1"] jh assms(5) by simp
  have k2: "(?hs - j) * ?xl + i < length g" using cell_index_less [OF assms(6), of "?hs - j" "?hs + 1"] assms(5) by simp
  show ?thesis
    unfolding Edges_row_step_def Let_def assms(1,4) m top_key bottom_key [OF jh] ToNumber.simps
    using assms(8) k1 k2 by (rule pushed_two_updates)
qed

lemma right_key:
  "i \<le> hs \<Longrightarrow> j \<le> ws \<Longrightarrow> (int hs - int i) * int xl + (int ws - int j) = int ((hs - i) * xl + (ws - j))"
  by (simp add: of_nat_diff)

lemma Edges_column_step_pushed:
  assumes "numSegments distance (width options) (widthSegments options) = Fin (real nx)"
    and "nx \<le> widthSegments options + 1" and "eases_unit e"
    and "(if direction then maxHeight options else minHeight options) = Some (Fin p)"
    and "length g = (widthSegments options + 1) * (heightSegments options + 1)"
    and "i < heightSegments options + 1" and "j < nx" and "pushed direction g g1"
  shows "\<exists>g2. Edges_column_step options direction distance e edges i j g1 = Inr g2 \<and> pushed direction g g2"
proof -
  let ?xl = "widthSegments options + 1"
  let ?hs = "heightSegments options"
  let ?ws = "widthSegments options"
  from edge_multiplier_finite [OF assms(3,7)]
  obtain m where m: "e (Fin 1 - Fin (real j) / Fin (real nx)) = Fin m" by blast
  have jw: "j \<le> ?ws" "j < ?xl" using assms(2,7) by simp_all
  have ih: "i \<le> ?hs" using assms(6) by simp
  have k1: "i * ?xl + j < length g" using cell_index_less [OF jw(2) assms(6)] assms(5) by simp
  have k2: "(?hs - i) * ?xl + (?ws - j) < length g"
    using cell_index_less [of "?ws - j" ?xl "?hs - i" "?hs + 1"] assms(5) by simp
  show ?thesis
    unfolding Edges_column_step_def Let_def assms(1,4) m top_key right_key [OF ih jw(1)] ToNumber.simps
    using assms(8) k1 k2 by (rule pushed_two_updates)
qed

lemma Edges_shape_pushed:
  assumes "edges_setting options distance (case easing_arg of None \<Rightarrow> EaseInOut | Some f \<Rightarrow> f)"
    and "(if direction then maxHeight options else minHeight options) = Some (Fin p)"
    and len: "length zs = (widthSegments options + 1) * (heightSegments options + 1)"
  shows "\<exists>g'. Edges_shape EaseInOut (map Fin zs) options direction distance easing_arg edges_arg = Some (Inr g')
      \<and> pushed direction (map Fin zs) g'"
proof -
  let ?g = "map Fin zs"
  let ?e = "case easing_arg of None \<Rightarrow> EaseInOut | Some f \<Rightarrow> f"
  let ?xl = "widthSegments options + 1"
  let ?yl = "heightSegments options + 1"
  let ?edges = "resolved_edges edges_arg"
  from assms(1) obtain nx ny where
    nx: "numSegments distance (width options) (widthSegments options) = Fin (real nx)" "nx \<le> ?xl"
    and ny: "numSegments distance (height options) (heightSegments options) = Fin (real ny)" "ny \<le> ?yl"
    and e: "eases_unit ?e"
    unfolding edges_setting_def by blast
  have lg: "length ?g = ?xl * ?yl" using len by simp
  let ?rows = "\<lambda>i. for_each [0..<ny] (Edges_row_step options direction distance ?e ?edges i)"
  let ?cols = "\<lambda>i. for_each [0..<nx] (Edges_column_step options direction distance ?e ?edges i)"
  have rows_i: "\<exists>s'. ?rows i g1 = Inr s' \<and> pushed direction ?g s'"
    if "i < ?xl" "pushed direction ?g g1" for i g1
    by (rule for_each_upt_inv [where I = "\<lambda>j. pushed direction ?g"])
      (use that Edges_row_step_pushed [OF ny e assms(2) lg] in auto)
  have "\<exists>s'. for_each [0..<?xl] ?rows ?g = Inr s' \<and> pushed direction ?g s'"
    by (rule for_each_upt_inv [where I = "\<lambda>i. pushed direction ?g"]) (use rows_i pushed_refl in auto)
  then obtain g1 where g1: "for_each [0..<?xl] ?rows ?g = Inr g1" "pushed direction ?g g1" by blast
  have cols_i: "\<exists>s'. ?cols i g2 = Inr s' \<and> pushed direction ?g s'"
    if "i < ?yl" "pushed direction ?g g2" for i g2
    by (rule for_each_upt_inv [where I = "\<lambda>j. pushed direction ?g"])
      (use that Edges_column_step_pushed [OF nx e assms(2) lg] in auto)
  have "\<exists>s'. for_each [0..<?yl] ?cols g1 = Inr s' \<and> pushed direction ?g s'"
    by (rule for_each_upt_inv [where I = "\<lambda>i. pushed direction ?g"]) (use cols_i g1(2) in auto)
  then obtain g2 where g2: "for_each [0..<?yl] ?cols g1 = Inr g2" "pushed direction ?g g2" by blast
  have "for_each_opt [0..<?xl]
      (\<lambda>i. for_below (numSegments distance (height options) (heightSegments options))
             (Edges_row_step options direction distance ?e ?edges i) 0) ?g
      = Some (for_each [0..<?xl] ?rows ?g)"
    unfolding ny(1) for_below_finite by (rule for_each_opt_Some) (rule refl)
  then have r: "for_each_opt [0..<?xl]
      (\<lambda>i. for_below (numSegments distance (height options) (heightSegments options))
             (Edges_row_step options direction distance ?e ?edges i) 0) ?g = Some (Inr g1)"
    by (simp only: g1(1))
  have "for_each_opt [0..<?yl]
      (\<lambda>i. for_below (numSegments distance (width options) (widthSegments options))
             (Edges_column_step options direction distance ?e ?edges i) 0) g1
      = Some (for_each [0..<?yl] ?cols g1)"
    unfolding nx(1) for_below_finite by (rule for_each_opt_Some) (rule refl)
  then have c: "for_each_opt [0..<?yl]
      (\<lambda>i. for_below (numSegments distance (width options) (widthSegments options))
             (Edges_column_step options direction distance ?e ?edges i) 0) g1 = Some (Inr g2)"
    by (simp only: g2(1))
  have "Edges_shape EaseInOut ?g options direction distance easing_arg edges_arg = Some (Inr g2)"
    unfolding Edges_shape_def Let_def by (simp only: r c option.case sum.case)
  then show ?thesis using g2(2) by blast
qed

text \<open>
  C2, as the specification states it, fails for Edges: the filter ends by normalising
  the grid again (line 111). On the 3x3 grid of elevation 8 with \<^verbatim>\<open>width = height = 2\<close>,
  \<^verbatim>\<open>maxHeight = 10\<close>, \<^verbatim>\<open>minHeight = 0\<close>, \<^verbatim>\<open>direction = true\<close>, \<^verbatim>\<open>distance = 2\<close> and the easing
  \<open>Linear\<close>, the two loop nests raise the border to 10 and the centre to 79/8; the
  normalisation then maps the centre, now the least elevation, to 0, below the 8 it had
  before the call.
\<close>

theorem edges_push_counterexample:
  "Edges_shape Linear [Fin 8, Fin 8, Fin 8, Fin 8, Fin 8, Fin 8, Fin 8, Fin 8, Fin 8]
      \<lparr>maxHeight = Some (Fin 10), minHeight = Some (Fin 0), easing = None, stretch = False,
       width = Fin 2, height = Fin 2, widthSegments = 2, heightSegments = 2\<rparr>
      True (Fin 2) (Some Linear) None
     = Some (Inr [Fin 10, Fin 10, Fin 10, Fin 10, Fin (79 / 8), Fin 10, Fin 10, Fin 10, Fin 10])
   \<and> Edges Linear [Fin 8, Fin 8, Fin 8, Fin 8, Fin 8, Fin 8, Fin 8, Fin 8, Fin 8]
      \<lparr>maxHeight = Some (Fin 10), minHeight = Some (Fin 0), easing = None, stretch = False,
       width = Fin 2, height = Fin 2, widthSegments = 2, heightSegments = 2\<rparr>
      True (Fin 2) (Some Linear) None
     = Some (Inr [Fin 10, Fin 10, Fin 10, Fin 10, Fin 0, Fin 10, Fin 10, Fin 10, Fin 10])
   \<and> \<not> Fin 8 \<le> Fin 0"
  by code_simp

text \<open>
  C2, amended. For a grid of finite elevations of length \<open>columns * rows\<close>, a numeric
  peak and an easing function that maps \<open>[0, 1]\<close> into \<open>[0, 1]\<close>: RadialEdges, with finite
  extents and distance, at least one segment on each axis and \<^verbatim>\<open>edgeRadius > 0\<close>, returns a
  grid in which every cell is at least (\<^verbatim>\<open>direction = true\<close>) or at most
  (\<^verbatim>\<open>direction = false\<close>) its elevation before the call. For Edges, when the band is no
  wider than the grid, this holds for the grid after the two loop nests, before the
  normalisation of line 111; Edges returns the normalised grid.
\<close>

theorem edge_push_monotone:
  assumes "(if direction then maxHeight options else minHeight options) = Some (Fin p)"
    and "length zs = (widthSegments options + 1) * (heightSegments options + 1)"
  shows "(radial_setting options distance e \<longrightarrow>
            (\<exists>g'. RadialEdges (map Fin zs) options direction distance e = Inr g'
               \<and> pushed direction (map Fin zs) g'))
       \<and> (edges_setting options distance (case easing_arg of None \<Rightarrow> EaseInOut | Some f \<Rightarrow> f) \<longrightarrow>
            (\<exists>g'. Edges_shape EaseInOut (map Fin zs) options direction distance easing_arg edges_arg
                     = Some (Inr g')
               \<and> pushed direction (map Fin zs) g'
               \<and> Edges EaseInOut (map Fin zs) options direction distance easing_arg edges_arg
                     = Some (applyTerrainClamp g'
                              \<lparr>maxHeight = maxHeight options, minHeight = minHeight options,
                               easing = Some Linear, stretch = True\<rparr>)))"
proof (intro conjI impI)
  assume "radial_setting options distance e"
  then show "\<exists>g'. RadialEdges (map Fin zs) options direction distance e = Inr g'
      \<and> pushed direction (map Fin zs) g'"
    using assms by (rule RadialEdges_pushed)
next
  assume "edges_setting options distance (case easing_arg of None \<Rightarrow> EaseInOut | Some f \<Rightarrow> f)"
  from Edges_shape_pushed [OF this assms, where edges_arg = edges_arg]
  obtain g' where g': "Edges_shape EaseInOut (map Fin zs) options direction distance easing_arg edges_arg
      = Some (Inr g')" "pushed direction (map Fin zs) g'" by blast
  then show "\<exists>g'. Edges_shape EaseInOut (map Fin zs) options direction distance easing_arg edges_arg
                     = Some (Inr g')
               \<and> pushed direction (map Fin zs) g'
               \<and> Edges EaseInOut (map Fin zs) options direction distance easing_arg edges_arg
                     = Some (applyTerrainClamp g'
                              \<lparr>maxHeight = maxHeight options, minHeight = minHeight options,
                               easing = Some Linear, stretch = True\<rparr>)"
    by (simp add: Edges_def)
qed

theorem edge_push_monotone_witness:
  "(\<exists>g'. RadialEdges (map Fin [1, 2, 3, 4, 5, 6, 7, 8, 9])
            \<lparr>maxHeight = Some (Fin 10), minHeight = Some (Fin 0), easing = None, stretch = False,
             width = Fin 2, height = Fin 2, widthSegments = 2, heightSegments = 2\<rparr>
            True (Fin (1 / 2)) Linear = Inr g'
       \<and> pushed True (map Fin [1, 2, 3, 4, 5, 6, 7, 8, 9]) g')
   \<and> (\<exists>g'. Edges_shape Linear (map Fin [1, 2, 3, 4, 5, 6, 7, 8, 9])
            \<lparr>maxHeight = Some (Fin 10), minHeight = Some (Fin 0), easing = None, stretch = False,
             width = Fin 2, height = Fin 2, widthSegments = 2, heightSegments = 2\<rparr>
            True (Fin (1 / 2)) None None = Some (Inr g')
       \<and> pushed True (map Fin [1, 2, 3, 4, 5, 6, 7, 8, 9]) g')"
proof -
  let ?o = "\<lparr>maxHeight = Some (Fin 10), minHeight = Some (Fin 0), easing = None, stretch = False,
             width = Fin 2, height = Fin 2, widthSegments = 2, heightSegments = 2\<rparr>"
  have lin: "eases_unit Linear" by (simp add: eases_unit_def Linear_def)
  have r: "radial_setting ?o (Fin (1 / 2)) Linear"
    unfolding radial_setting_def
    by (intro exI [of _ 2] exI [of _ "1 / 2"] conjI) (simp_all add: lin)
  have n: "numSegments (Fin (1 / 2)) (Fin 2) 2 = Fin (real 1)"
    by (simp add: numSegments_def or_else_def)
  have s: "edges_setting ?o (Fin (1 / 2)) (case None of None \<Rightarrow> Linear | Some f \<Rightarrow> f)"
    unfolding edges_setting_def
    by (intro exI [of _ 1] conjI) (simp_all add: n lin)
  from edge_push_monotone [where direction = True and options = ?o and p = 10
      and zs = "[1, 2, 3, 4, 5, 6, 7, 8, 9]" and distance = "Fin (1 / 2)" and e = Linear
      and easing_arg = None and EaseInOut = Linear and edges_arg = None]
    r s
  show ?thesis by auto
qed

end
